theory Spec2Isabelle
  imports Complex_Main "HOL-Library.Log_Nat" "HOL-Library.Sublist" "HOL-Library.State_Monad"
begin

section \<open>Numbers\<close>

text \<open>
  Every coordinate in \<^verbatim>\<open>process.js\<close> is a JavaScript number, an IEEE 754 double. A
  number of the model is \<^verbatim>\<open>NaN\<close>, one of the two infinities, or \<open>Fin r\<close> for the
  finite double of value \<open>r\<close>. The two zeros are one value: the code never divides by a
  variable, so nothing it computes tells them apart.
\<close>

datatype jsnum = NaN | NegInfinity | Fin real | Infinity

subsection \<open>Rounding to the nearest double\<close>

text \<open>
  \<open>ilog2 x\<close> is the exponent of the binade of a positive \<open>x\<close>:
  \<open>2 powi ilog2 x \<le> x < 2 powi (ilog2 x + 1)\<close>.
\<close>

definition ilog2 :: "real \<Rightarrow> int" where
  "ilog2 x =
     (if 1 \<le> x then int (floorlog 2 (nat \<lfloor>x\<rfloor>)) - 1
      else - int (floorlog 2 (nat (\<lceil>1 / x\<rceil> - 1))))"

text \<open>To the nearest integer, a tie to the even one.\<close>

definition round_half_even :: "real \<Rightarrow> int" where
  "round_half_even q =
     (let f = \<lfloor>q\<rfloor>; d = q - of_int f
      in if d < 1 / 2 then f else if 1 / 2 < d then f + 1 else if even f then f else f + 1)"

text \<open>
  A double has 53 significant bits, so around a positive \<open>a\<close> the doubles are the
  multiples of \<open>2 powi (ilog2 a - 52)\<close>, and of \<open>2 powi (-1074)\<close> in the subnormal
  range. \<open>round_mag a\<close> is the nearest of them, ties to the even multiple; a result of
  \<open>2 ^ 1024\<close> or more is an overflow.
\<close>

definition double_exp :: "real \<Rightarrow> int" where
  "double_exp a = max (ilog2 a - 52) (- 1074)"

definition round_at :: "int \<Rightarrow> real \<Rightarrow> real" where
  "round_at e a = of_int (round_half_even (a / 2 powi e)) * 2 powi e"

definition round_mag :: "real \<Rightarrow> real" where
  "round_mag a = round_at (double_exp a) a"

definition overflow_check :: "bool \<Rightarrow> real \<Rightarrow> jsnum" where
  "overflow_check neg v =
     (if 2 ^ 1024 \<le> v then (if neg then NegInfinity else Infinity)
      else Fin (if neg then - v else v))"

definition round_double :: "real \<Rightarrow> jsnum" where
  "round_double x =
     (if x = 0 then Fin 0 else overflow_check (x < 0) (round_mag \<bar>x\<bar>))"

subsection \<open>The operations of the code\<close>

text \<open>
  \<^verbatim>\<open>+\<close>, \<^verbatim>\<open>-\<close>, \<^verbatim>\<open>*\<close> and \<^verbatim>\<open>/ 2\<close> compute the exact result of two finite
  operands and round it once; \<^verbatim>\<open>a - b\<close> is \<^verbatim>\<open>a + (-b)\<close>.
\<close>

fun jneg :: "jsnum \<Rightarrow> jsnum" where
  "jneg NaN = NaN"
| "jneg NegInfinity = Infinity"
| "jneg (Fin a) = Fin (- a)"
| "jneg Infinity = NegInfinity"

fun jadd :: "jsnum \<Rightarrow> jsnum \<Rightarrow> jsnum" where
  "jadd NaN _ = NaN"
| "jadd _ NaN = NaN"
| "jadd (Fin a) (Fin b) = round_double (a + b)"
| "jadd (Fin a) b = b"
| "jadd a (Fin b) = a"
| "jadd Infinity Infinity = Infinity"
| "jadd NegInfinity NegInfinity = NegInfinity"
| "jadd Infinity NegInfinity = NaN"
| "jadd NegInfinity Infinity = NaN"

definition jsub :: "jsnum \<Rightarrow> jsnum \<Rightarrow> jsnum" where
  "jsub a b = jadd a (jneg b)"

text \<open>Multiplication: \<^verbatim>\<open>0 * Infinity\<close> is \<^verbatim>\<open>NaN\<close>, otherwise the signs multiply.\<close>

fun jsign :: "jsnum \<Rightarrow> int" where
  "jsign NaN = 0"
| "jsign NegInfinity = - 1"
| "jsign (Fin a) = (if a < 0 then - 1 else if a = 0 then 0 else 1)"
| "jsign Infinity = 1"

fun jmul :: "jsnum \<Rightarrow> jsnum \<Rightarrow> jsnum" where
  "jmul NaN _ = NaN"
| "jmul _ NaN = NaN"
| "jmul (Fin a) (Fin b) = round_double (a * b)"
| "jmul a b =
     (if jsign a * jsign b = 0 then NaN
      else if jsign a * jsign b < 0 then NegInfinity else Infinity)"

text \<open>The only division in the code is by the literal 2.\<close>

fun jdiv2 :: "jsnum \<Rightarrow> jsnum" where
  "jdiv2 (Fin a) = round_double (a / 2)"
| "jdiv2 a = a"

text \<open>\<^verbatim>\<open>a < b\<close> and \<^verbatim>\<open>a > b\<close>: false as soon as one side is \<^verbatim>\<open>NaN\<close>.\<close>

fun jlt :: "jsnum \<Rightarrow> jsnum \<Rightarrow> bool" where
  "jlt NaN _ = False"
| "jlt _ NaN = False"
| "jlt (Fin a) (Fin b) = (a < b)"
| "jlt NegInfinity NegInfinity = False"
| "jlt NegInfinity _ = True"
| "jlt _ NegInfinity = False"
| "jlt Infinity _ = False"
| "jlt _ Infinity = True"

definition jgt :: "jsnum \<Rightarrow> jsnum \<Rightarrow> bool" where
  "jgt a b = jlt b a"

text \<open>\<^verbatim>\<open>Math.min\<close> and \<^verbatim>\<open>Math.max\<close> of two arguments: \<^verbatim>\<open>NaN\<close> if either is.\<close>

definition jmin :: "jsnum \<Rightarrow> jsnum \<Rightarrow> jsnum" where
  "jmin a b = (if a = NaN \<or> b = NaN then NaN else if jlt b a then b else a)"

definition jmax :: "jsnum \<Rightarrow> jsnum \<Rightarrow> jsnum" where
  "jmax a b = (if a = NaN \<or> b = NaN then NaN else if jlt a b then b else a)"

subsection \<open>Notions used to state properties\<close>

text \<open>
  Not used by the code: a finite number; \<^verbatim>\<open>a <= b\<close>; a number that is a double (rounding
  leaves it as it is); a double of magnitude below \<open>2 ^ 40\<close>, on which one rounding moves a
  result by less than \<open>2 powi (-13)\<close>; and the decimal literal \<open>q\<close> read as a double.
\<close>

fun finite_num :: "jsnum \<Rightarrow> bool" where
  "finite_num (Fin _) = True"
| "finite_num _ = False"

definition jle :: "jsnum \<Rightarrow> jsnum \<Rightarrow> bool" where
  "jle a b = (jlt a b \<or> (a = b \<and> a \<noteq> NaN))"

fun is_double :: "jsnum \<Rightarrow> bool" where
  "is_double (Fin r) = (round_double r = Fin r)"
| "is_double _ = True"

fun moderate :: "jsnum \<Rightarrow> bool" where
  "moderate (Fin r) = (round_double r = Fin r \<and> \<bar>r\<bar> < 2 ^ 40)"
| "moderate _ = False"

definition literal :: "real \<Rightarrow> jsnum" where
  "literal q = round_double q"

section \<open>Data model\<close>

text \<open>
  A Rect is \<^verbatim>\<open>{x, y, width, height}\<close>; a text item is \<^verbatim>\<open>{str, box}\<close>; a label is
  \<^verbatim>\<open>{box, items}\<close>. The running minimum and maximum of the two folds and the search
  window are \<^verbatim>\<open>{minX, maxX, minY, maxY}\<close>.
\<close>

record rect =
  rect_x :: jsnum
  rect_y :: jsnum
  rect_width :: jsnum
  rect_height :: jsnum

record text_item =
  str :: string
  box :: rect

record label =
  label_box :: rect
  label_items :: "text_item list"

record bounds =
  minX :: jsnum
  maxX :: jsnum
  minY :: jsnum
  maxY :: jsnum

text \<open>
  What it means to bound a box, for the running minimum and maximum and for a Rect; and a
  box whose four numbers are finite.
\<close>

definition finite_rect :: "rect \<Rightarrow> bool" where
  "finite_rect r =
     (finite_num (rect_x r) \<and> finite_num (rect_y r)
      \<and> finite_num (rect_width r) \<and> finite_num (rect_height r))"

definition bounds_cover :: "bounds \<Rightarrow> rect \<Rightarrow> bool" where
  "bounds_cover u r =
     (jle (minX u) (rect_x r) \<and> jle (jadd (rect_x r) (rect_width r)) (maxX u)
      \<and> jle (minY u) (rect_y r) \<and> jle (jadd (rect_y r) (rect_height r)) (maxY u))"

definition rect_covers :: "rect \<Rightarrow> rect \<Rightarrow> bool" where
  "rect_covers outer r =
     (jle (rect_x outer) (rect_x r)
      \<and> jle (jadd (rect_x r) (rect_width r)) (jadd (rect_x outer) (rect_width outer))
      \<and> jle (rect_y outer) (rect_y r)
      \<and> jle (jadd (rect_y r) (rect_height r)) (jadd (rect_y outer) (rect_height outer)))"

text \<open>
  The window rule as the specification words it, in the arithmetic of the code: the token's
  x strictly between the anchor's x - 120 and x + 120, its vertical centre y + height / 2
  strictly between the anchor's y - 60 and y + 60.
\<close>

definition in_window :: "text_item \<Rightarrow> text_item \<Rightarrow> bool" where
  "in_window anchor t =
     (jlt (jsub (rect_x (box anchor)) (Fin 120)) (rect_x (box t))
      \<and> jlt (rect_x (box t)) (jadd (rect_x (box anchor)) (Fin 120))
      \<and> jlt (jsub (rect_y (box anchor)) (Fin 60))
              (jadd (rect_y (box t)) (jdiv2 (rect_height (box t))))
      \<and> jlt (jadd (rect_y (box t)) (jdiv2 (rect_height (box t))))
              (jadd (rect_y (box anchor)) (Fin 60)))"

section \<open>Strings\<close>

text \<open>
  Strings are lists of 8-bit characters, read as the code units below 256. In that range
  the white space of \<^verbatim>\<open>String.prototype.trim\<close> and of the regular expression class
  \<^verbatim>\<open>\s\<close> is TAB, LF, VT, FF, CR, SPACE and NBSP.
\<close>

definition is_space :: "char \<Rightarrow> bool" where
  "is_space c = ((of_char c :: nat) \<in> {9, 10, 11, 12, 13, 32, 160})"

definition trim :: "string \<Rightarrow> string" where
  "trim s = rev (dropWhile is_space (rev (dropWhile is_space s)))"

text \<open>\<^verbatim>\<open>s.replace(/\s+/g, '')\<close> deletes every white-space character.\<close>

definition strip_spaces :: "string \<Rightarrow> string" where
  "strip_spaces s = filter (\<lambda>c. \<not> is_space c) s"

text \<open>
  \<^verbatim>\<open>toLowerCase\<close> on code units below 256: A to Z, and the Latin-1 capitals
  0xC0 to 0xDE except the multiplication sign 0xD7, move up by 32.
\<close>

definition lower_char :: "char \<Rightarrow> char" where
  "lower_char c =
     (let n = (of_char c :: nat)
      in if (65 \<le> n \<and> n \<le> 90) \<or> (192 \<le> n \<and> n \<le> 222 \<and> n \<noteq> 215)
         then char_of (n + 32) else c)"

definition toLowerCase :: "string \<Rightarrow> string" where
  "toLowerCase s = map lower_char s"

text \<open>
  \<^verbatim>\<open>s.includes(t)\<close>: is there a position of \<open>s\<close> at which \<open>t\<close> starts? The search
  tries the positions from the left.
\<close>

fun starts_with :: "string \<Rightarrow> string \<Rightarrow> bool" where
  "starts_with s [] = True"
| "starts_with [] (c # t) = False"
| "starts_with (d # s) (c # t) = (d = c \<and> starts_with s t)"

fun str_includes :: "string \<Rightarrow> string \<Rightarrow> bool" where
  "str_includes [] t = (t = [])"
| "str_includes (d # s) t = (starts_with (d # s) t \<or> str_includes s t)"

section \<open>The identifier pattern\<close>

text \<open>
  \<^verbatim>\<open>/^(X00|B0)[A-Z0-9]{8,10}$/\<close>, without flags: the match starts at the first
  character and ends at the last. The class \<^verbatim>\<open>[A-Z0-9]\<close> is \<open>is_upper_or_digit\<close>;
  \<open>match_tail\<close> is the bounded repetition followed by the end of input; the alternation
  tries \<^verbatim>\<open>X00\<close>, then \<^verbatim>\<open>B0\<close>.
\<close>

definition is_upper_or_digit :: "char \<Rightarrow> bool" where
  "is_upper_or_digit c =
     (let n = (of_char c :: nat) in (65 \<le> n \<and> n \<le> 90) \<or> (48 \<le> n \<and> n \<le> 57))"

definition match_tail :: "string \<Rightarrow> bool" where
  "match_tail r = (8 \<le> length r \<and> length r \<le> 10 \<and> list_all is_upper_or_digit r)"

fun match_prefix :: "string \<Rightarrow> string \<Rightarrow> string option" where
  "match_prefix [] s = Some s"
| "match_prefix (p # ps) [] = None"
| "match_prefix (p # ps) (c # s) = (if p = c then match_prefix ps s else None)"

definition FNSKU_REGEX_test :: "string \<Rightarrow> bool" where
  "FNSKU_REGEX_test s =
     ((case match_prefix ''X00'' s of Some r \<Rightarrow> match_tail r | None \<Rightarrow> False)
      \<or> (case match_prefix ''B0'' s of Some r \<Rightarrow> match_tail r | None \<Rightarrow> False))"

section \<open>Label clusterer\<close>

text \<open>
  \<^verbatim>\<open>findLabelsByFnsku(items, pageHeight)\<close>. The three arrow functions of the source get
  names: \<open>transformItem\<close> (the map that flips y), \<open>isAnchor\<close> (the filter on the
  pattern) and \<open>labelOfAnchor\<close> (the map from an anchor to its label), the latter with
  its window test \<open>inSearchBox\<close> and its fold step \<open>unionStep\<close>.
\<close>

definition transformItem :: "jsnum \<Rightarrow> text_item \<Rightarrow> text_item" where
  "transformItem pageHeight item =
     item\<lparr>box := (box item)\<lparr>rect_y :=
       jsub (jsub pageHeight (rect_y (box item))) (rect_height (box item))\<rparr>\<rparr>"

definition isAnchor :: "text_item \<Rightarrow> bool" where
  "isAnchor item = FNSKU_REGEX_test (trim (str item))"

definition searchBoxOf :: "text_item \<Rightarrow> bounds" where
  "searchBoxOf anchor =
     \<lparr>minX = jsub (rect_x (box anchor)) (Fin 120), maxX = jadd (rect_x (box anchor)) (Fin 120),
      minY = jsub (rect_y (box anchor)) (Fin 60), maxY = jadd (rect_y (box anchor)) (Fin 60)\<rparr>"

definition inSearchBox :: "bounds \<Rightarrow> text_item \<Rightarrow> bool" where
  "inSearchBox searchBox item =
     (let itemCenterY = jadd (rect_y (box item)) (jdiv2 (rect_height (box item)))
      in jgt (rect_x (box item)) (minX searchBox) \<and> jlt (rect_x (box item)) (maxX searchBox)
         \<and> jgt itemCenterY (minY searchBox) \<and> jlt itemCenterY (maxY searchBox))"

definition emptyBounds :: bounds where
  "emptyBounds = \<lparr>minX = Infinity, maxX = NegInfinity, minY = Infinity, maxY = NegInfinity\<rparr>"

definition unionStep :: "bounds \<Rightarrow> text_item \<Rightarrow> bounds" where
  "unionStep acc item =
     \<lparr>minX = jmin (minX acc) (rect_x (box item)),
      maxX = jmax (maxX acc) (jadd (rect_x (box item)) (rect_width (box item))),
      minY = jmin (minY acc) (rect_y (box item)),
      maxY = jmax (maxY acc) (jadd (rect_y (box item)) (rect_height (box item)))\<rparr>"

definition unionBounds :: "text_item list \<Rightarrow> bounds" where
  "unionBounds its = foldl unionStep emptyBounds its"

definition labelOfAnchor :: "text_item list \<Rightarrow> jsnum \<Rightarrow> text_item \<Rightarrow> label" where
  "labelOfAnchor transformedItems pageHeight anchor =
     (let searchBox = searchBoxOf anchor;
          labelItems = filter (inSearchBox searchBox) transformedItems;
          labelBox = unionBounds labelItems
      in \<lparr>label_box = \<lparr>rect_x = minX labelBox, rect_y = jsub pageHeight (maxY labelBox),
                       rect_width = jsub (maxX labelBox) (minX labelBox),
                       rect_height = jsub (maxY labelBox) (minY labelBox)\<rparr>,
          label_items = labelItems\<rparr>)"

definition findLabelsByFnsku :: "text_item list \<Rightarrow> jsnum \<Rightarrow> label list" where
  "findLabelsByFnsku items pageHeight =
     (let transformedItems = map (transformItem pageHeight) items;
          anchors = filter isAnchor transformedItems
      in map (labelOfAnchor transformedItems pageHeight) anchors)"

section \<open>Region resolver\<close>

text \<open>
  \<^verbatim>\<open>findTextInLabel(label, searchText)\<close>. \<open>cleanText\<close> is
  \<^verbatim>\<open>.replace(/\s+/g, '').toLowerCase()\<close>, applied to the search text and to every
  item; the fold is the one of the clusterer.
\<close>

definition cleanText :: "string \<Rightarrow> string" where
  "cleanText s = toLowerCase (strip_spaces s)"

definition findTextInLabel :: "label \<Rightarrow> string \<Rightarrow> rect list" where
  "findTextInLabel label searchText =
     (let cleanSearchText = cleanText searchText;
          matchedItems =
            filter (\<lambda>item. str_includes cleanSearchText (cleanText (str item))) (label_items label)
      in if length matchedItems = 0 then []
         else
           (let unionBox = unionBounds matchedItems
            in [\<lparr>rect_x = jsub (minX unionBox) (Fin 2),
                 rect_y = jsub (jsub (jadd (rect_height (label_box label)) (rect_y (label_box label)))
                                     (maxY unionBox)) (Fin 2),
                 rect_width = jadd (jsub (maxX unionBox) (minX unionBox)) (Fin 4),
                 rect_height = jadd (jsub (maxY unionBox) (minY unionBox)) (Fin 4)\<rparr>]))"

text \<open>
  The same function, statement by statement, with the label held in the state, as the
  caller's object is: \<^verbatim>\<open>label.items\<close> and \<^verbatim>\<open>label.box\<close> are reads of the state, the
  arrays and boxes the body builds are values of its own, and no statement writes.
\<close>

definition findTextInLabel_st :: "string \<Rightarrow> (label, rect list) state" where
  "findTextInLabel_st searchText =
     do { let cleanSearchText = cleanText searchText;
          label \<leftarrow> State_Monad.get;
          let matchedItems =
            filter (\<lambda>item. str_includes cleanSearchText (cleanText (str item))) (label_items label);
          if length matchedItems = 0 then State_Monad.return []
          else do {
            let unionBox = foldl unionStep emptyBounds matchedItems;
            label \<leftarrow> State_Monad.get;
            State_Monad.return
              [\<lparr>rect_x = jsub (minX unionBox) (Fin 2),
                rect_y = jsub (jsub (jadd (rect_height (label_box label)) (rect_y (label_box label)))
                                    (maxY unionBox)) (Fin 2),
                rect_width = jadd (jsub (maxX unionBox) (minX unionBox)) (Fin 4),
                rect_height = jadd (jsub (maxY unionBox) (minY unionBox)) (Fin 4)\<rparr>] } }"

section \<open>Token extractor\<close>

text \<open>
  \<^verbatim>\<open>getTextItemsWithCoords(page)\<close>. The two regular-expression matches on a block and
  \<^verbatim>\<open>parseFloat\<close> are inputs of the model: a block is the pair of \<^verbatim>\<open>tmMatch\<close>, already
  mapped to its six numbers \<^verbatim>\<open>[a, b, c, d, e, f]\<close>, and \<^verbatim>\<open>tjMatch[1]\<close>, each absent
  when the expression does not match. \<^verbatim>\<open>text.length\<close> is the number of code units.
\<close>

type_synonym matrix = "jsnum \<times> jsnum \<times> jsnum \<times> jsnum \<times> jsnum \<times> jsnum"

type_synonym text_block = "matrix option \<times> string option"

definition textItemOf :: "matrix \<Rightarrow> string \<Rightarrow> text_item" where
  "textItemOf m text =
     (case m of (a, b, c, d, e, f) \<Rightarrow>
        (let fontSize = (if jgt a (Fin 0) then a else d);
             approxWidth = jmul (jmul (Fin (real (length text))) fontSize) (literal 0.55);
             approxHeight = fontSize
         in \<lparr>str = text,
             box = \<lparr>rect_x = e, rect_y = f, rect_width = approxWidth, rect_height = approxHeight\<rparr>\<rparr>))"

fun getTextItemsWithCoords :: "text_block list \<Rightarrow> text_item list" where
  "getTextItemsWithCoords [] = []"
| "getTextItemsWithCoords ((Some m, Some text) # blocks) =
     textItemOf m text # getTextItemsWithCoords blocks"
| "getTextItemsWithCoords (_ # blocks) = getTextItemsWithCoords blocks"

section \<open>The page loop of the request handler\<close>

text \<open>
  The body of the loop over pages in \<^verbatim>\<open>onRequest\<close>, with the drawing calls of the
  library recorded in order. \<^verbatim>\<open>font.widthOfTextAtSize\<close> belongs to the library and is
  a parameter. An empty \<^verbatim>\<open>textToRemove\<close> is falsy, so the branch is skipped.
\<close>

datatype draw_op =
  DrawRectangle rect
| DrawText string jsnum jsnum jsnum

fun isRectangle :: "draw_op \<Rightarrow> bool" where
  "isRectangle (DrawRectangle _) = True"
| "isRectangle (DrawText _ _ _ _) = False"

definition drawLabel ::
  "(string \<Rightarrow> jsnum \<Rightarrow> jsnum) \<Rightarrow> string \<Rightarrow> bool \<Rightarrow> jsnum \<Rightarrow> label \<Rightarrow> draw_op list" where
  "drawLabel widthOfTextAtSize textToRemove addMadeInChina fontSize label =
     (if textToRemove \<noteq> [] then map DrawRectangle (findTextInLabel label textToRemove) else [])
     @ (if addMadeInChina
        then (let text = ''Made in China'';
                  textWidth = widthOfTextAtSize text fontSize
              in [DrawText text
                    (jadd (rect_x (label_box label))
                          (jdiv2 (jsub (rect_width (label_box label)) textWidth)))
                    (jadd (rect_y (label_box label)) (Fin 2))
                    fontSize])
        else [])"

definition drawPage ::
  "(string \<Rightarrow> jsnum \<Rightarrow> jsnum) \<Rightarrow> string \<Rightarrow> bool \<Rightarrow> jsnum \<Rightarrow> text_item list \<Rightarrow> jsnum
     \<Rightarrow> draw_op list" where
  "drawPage widthOfTextAtSize textToRemove addMadeInChina fontSize textItems height =
     concat (map (drawLabel widthOfTextAtSize textToRemove addMadeInChina fontSize)
                 (findLabelsByFnsku textItems height))"

text \<open>
  The second variant of the handler applies instructions computed by the client:
  \<^verbatim>\<open>removeAreas\<close> are drawn as they are, each \<^verbatim>\<open>addText\<close> entry is centred on its x.
\<close>

record text_info =
  ti_text :: string
  ti_x :: jsnum
  ti_y :: jsnum
  ti_fontSize :: jsnum

record page_mod =
  removeAreas :: "rect list"
  addText :: "text_info list"

definition applyPageMod :: "(string \<Rightarrow> jsnum \<Rightarrow> jsnum) \<Rightarrow> page_mod \<Rightarrow> draw_op list" where
  "applyPageMod widthOfTextAtSize pageMod =
     map DrawRectangle (removeAreas pageMod)
     @ map (\<lambda>textInfo.
              (let textWidth = widthOfTextAtSize (ti_text textInfo) (ti_fontSize textInfo)
               in DrawText (ti_text textInfo)
                    (jsub (ti_x textInfo) (jdiv2 textWidth))
                    (ti_y textInfo)
                    (ti_fontSize textInfo)))
           (addText pageMod)"

section \<open>The scenario of the specification\<close>

text \<open>
  Two text blocks at font size 10 on a page of height 800: the identifier
  \<^verbatim>\<open>B0ABCDEFGH\<close> at (100, 700) and \<^verbatim>\<open>SomeText\<close> at (90, 690).
\<close>

definition scenarioBlocks :: "text_block list" where
  "scenarioBlocks =
     [(Some (Fin 10, Fin 0, Fin 0, Fin 10, Fin 100, Fin 700), Some ''B0ABCDEFGH''),
      (Some (Fin 10, Fin 0, Fin 0, Fin 10, Fin 90, Fin 690), Some ''SomeText'')]"

definition scenarioItems :: "text_item list" where
  "scenarioItems = getTextItemsWithCoords scenarioBlocks"

definition scenarioLabel :: label where
  "scenarioLabel = hd (findLabelsByFnsku scenarioItems (Fin 800))"

text \<open>
  The scenario, a second identifier 5000 units to the right with a neighbour of its own,
  and the first identifier once more at the same place.
\<close>

definition farBlocks :: "text_block list" where
  "farBlocks =
     scenarioBlocks
     @ [(Some (Fin 10, Fin 0, Fin 0, Fin 10, Fin 5100, Fin 700), Some ''X00ABCDEFGH1''),
        (Some (Fin 10, Fin 0, Fin 0, Fin 10, literal 5090.5, Fin 690), Some ''Other''),
        (Some (Fin 10, Fin 0, Fin 0, Fin 10, Fin 100, Fin 700), Some ''B0ABCDEFGH'')]"

definition farItems :: "text_item list" where
  "farItems = getTextItemsWithCoords farBlocks"

text \<open>The scenario with a third block whose text is one space, at (90, 680).\<close>

definition blankBlocks :: "text_block list" where
  "blankBlocks =
     scenarioBlocks @ [(Some (Fin 10, Fin 0, Fin 0, Fin 10, Fin 90, Fin 680), Some '' '')]"

definition blankLabel :: label where
  "blankLabel = hd (findLabelsByFnsku (getTextItemsWithCoords blankBlocks) (Fin 800))"

text \<open>
  One identifier block turned by half a turn at size 120: its matrix has a = d = -120, so
  that the font size, and with it the height of the token, is -120.
\<close>

definition upsideDownBlocks :: "text_block list" where
  "upsideDownBlocks =
     [(Some (Fin (- 120), Fin 0, Fin 0, Fin (- 120), Fin 100, Fin 700), Some ''B0ABCDEFGH'')]"

definition upsideDownItems :: "text_item list" where
  "upsideDownItems = getTextItemsWithCoords upsideDownBlocks"

text \<open>
  An identifier at x = 0.1 and a token at x = 120.1, both at y = 700 and of size 10: in
  doubles 0.1 + 120 is 120.1, the x of the token.
\<close>

definition edgeBlocks :: "text_block list" where
  "edgeBlocks =
     [(Some (Fin 10, Fin 0, Fin 0, Fin 10, literal 0.1, Fin 700), Some ''B0ABCDEFGH''),
      (Some (Fin 10, Fin 0, Fin 0, Fin 10, literal 120.1, Fin 700), Some ''Edge'')]"

definition edgeItems :: "text_item list" where
  "edgeItems = getTextItemsWithCoords edgeBlocks"

text \<open>
  An identifier and a token of size 9.6 at y = 309.83 and y = 374.63, on a page of height
  841.89: the vertical centre of the token is 60 above the top of the identifier, up to
  rounding.
\<close>

definition tightBlocks :: "text_block list" where
  "tightBlocks =
     [(Some (literal 9.6, Fin 0, Fin 0, literal 9.6, Fin 100, literal 309.83), Some ''B0ABCDEFGH''),
      (Some (literal 9.6, Fin 0, Fin 0, literal 9.6, Fin 100, literal 374.63), Some ''Near'')]"

definition tightItems :: "text_item list" where
  "tightItems = getTextItemsWithCoords tightBlocks"

definition tightPageHeight :: jsnum where
  "tightPageHeight = literal 841.89"

text \<open>A box at the origin, for tokens of which only the text matters.\<close>

definition zeroBox :: rect where
  "zeroBox = \<lparr>rect_x = Fin 0, rect_y = Fin 0, rect_width = Fin 0, rect_height = Fin 0\<rparr>"

section \<open>Facts about rounding\<close>

lemma p2_pos [simp]: "0 < (2::real) powi e" by simp

lemma p2_mono: "a \<le> b \<Longrightarrow> (2::real) powi a \<le> 2 powi b"
  by (rule power_int_increasing) simp_all

lemma p2_strict: "a < b \<Longrightarrow> (2::real) powi a < 2 powi b"
  by (rule power_int_strict_increasing) simp_all

lemma p2_less_cancel: "(2::real) powi a < 2 powi b \<Longrightarrow> a < b"
  using p2_mono [of b a] by (cases "a < b") auto

lemma p2_add: "(2::real) powi (a + b) = 2 powi a * 2 powi b"
  by (rule power_int_add) simp

lemma p2_diff: "(2::real) powi (a - b) = 2 powi a / 2 powi b"
  by (rule power_int_diff) simp

lemma floorlog2_bounds:
  assumes "0 < n"
  shows "(2::real) ^ (floorlog 2 n - 1) \<le> real n" "real n + 1 \<le> 2 ^ floorlog 2 n" "0 < floorlog 2 n"
proof -
  from floorlog_bounds [of n 2] assms
  have b: "2 ^ (floorlog 2 n - 1) \<le> n" "Suc n \<le> 2 ^ floorlog 2 n" by simp_all
  from b(1) have "real (2 ^ (floorlog 2 n - 1)) \<le> real n" by (rule of_nat_mono)
  then show "(2::real) ^ (floorlog 2 n - 1) \<le> real n" by simp
  from b(2) have "real (Suc n) \<le> real (2 ^ floorlog 2 n)" by (rule of_nat_mono)
  then show "real n + 1 \<le> 2 ^ floorlog 2 n" by simp
  from assms show "0 < floorlog 2 n" by (simp add: floorlog_def)
qed


lemma powi_int_nat: "(2::real) powi (int n) = 2 ^ n" by simp

lemma powi_neg_nat: "(2::real) powi (- int n) = 1 / 2 ^ n"
  by (simp add: power_int_minus_divide)

lemma powi_pred: "0 < j \<Longrightarrow> (2::real) powi (int j - 1) = 2 ^ (j - 1)"
proof -
  assume "0 < j"
  then have "int j - 1 = int (j - 1)" by simp
  then show ?thesis by (simp only: powi_int_nat)
qed

lemma powi_neg_pred: "0 < j \<Longrightarrow> (2::real) powi (- int j + 1) = 1 / 2 ^ (j - 1)"
proof -
  assume "0 < j"
  then have "- int j + 1 = - int (j - 1)" by simp
  then show ?thesis by (simp only: powi_neg_nat)
qed

lemma ilog2_bounds:
  assumes "0 < x"
  shows "2 powi (ilog2 x) \<le> x \<and> x < 2 powi (ilog2 x + 1)"
proof (cases "1 \<le> x")
  case True
  define n where "n = nat \<lfloor>x\<rfloor>"
  from True have "1 \<le> \<lfloor>x\<rfloor>" by simp
  then have n0: "0 < n" unfolding n_def by simp
  have n1: "real n \<le> x" "x < real n + 1" using True unfolding n_def by linarith+
  note b = floorlog2_bounds [OF n0]
  define j where "j = floorlog 2 n"
  have i: "ilog2 x = int j - 1" using True by (simp add: ilog2_def n_def j_def)
  have j0: "0 < j" using b(3) by (simp add: j_def)
  have e1: "2 powi (ilog2 x) = (2::real) ^ (j - 1)"
    unfolding i using j0 by (rule powi_pred)
  have "ilog2 x + 1 = int j" unfolding i by simp
  then have e2: "2 powi (ilog2 x + 1) = (2::real) ^ j" by (simp only: powi_int_nat)
  from b(1) n1(1) have "(2::real) ^ (j - 1) \<le> x" unfolding j_def by linarith
  moreover from b(2) n1(2) have "x < (2::real) ^ j" unfolding j_def by linarith
  ultimately show ?thesis unfolding e1 e2 by blast
next
  case False
  with assms have x: "0 < x" "x < 1" by simp_all
  define k where "k = \<lceil>1 / x\<rceil>"
  define n where "n = nat (k - 1)"
  from x have "1 < 1 / x" by simp
  then have k: "2 \<le> k" unfolding k_def by (simp add: le_ceiling_iff)
  have kc: "1 / x \<le> of_int k" "of_int k - 1 < 1 / x" unfolding k_def by linarith+
  from k have n0: "0 < n" and n: "real n = of_int k - 1" unfolding n_def by simp_all
  note b = floorlog2_bounds [OF n0]
  define j where "j = floorlog 2 n"
  have j0: "0 < j" using b(3) by (simp add: j_def)
  have i: "ilog2 x = - int j" using False by (simp add: ilog2_def n_def k_def j_def)
  have e1: "2 powi (ilog2 x) = 1 / (2::real) ^ j" unfolding i by (rule powi_neg_nat)
  have e2: "2 powi (ilog2 x + 1) = 1 / (2::real) ^ (j - 1)"
    unfolding i using j0 by (rule powi_neg_pred)
  from kc(1) n b(2) have "1 / x \<le> 2 ^ j" unfolding j_def by linarith
  with x(1) have "1 \<le> 2 ^ j * x" by (simp add: field_simps)
  then have 1: "1 / 2 ^ j \<le> x" by (simp add: field_simps)
  from kc(2) n b(1) have "(2::real) ^ (j - 1) < 1 / x" unfolding j_def by linarith
  with x(1) have "(2::real) ^ (j - 1) * x < 1" by (simp add: field_simps)
  then have 2: "x < 1 / 2 ^ (j - 1)" by (simp add: field_simps)
  from 1 2 show ?thesis unfolding e1 e2 by blast
qed

lemma ilog2_unique:
  assumes "2 powi k \<le> x" "x < 2 powi (k + 1)"
  shows "ilog2 x = k"
proof -
  from assms(1) have "0 < x" using p2_pos [of k] by linarith
  note b = ilog2_bounds [OF this]
  from b assms have "2 powi (ilog2 x) < (2::real) powi (k + 1)" "(2::real) powi k < 2 powi (ilog2 x + 1)"
    by linarith+
  then have "ilog2 x < k + 1" "k < ilog2 x + 1" by (auto dest: p2_less_cancel)
  then show ?thesis by simp
qed

lemma ilog2_mono: "0 < x \<Longrightarrow> x \<le> y \<Longrightarrow> ilog2 x \<le> ilog2 y"
proof -
  assume a: "0 < x" "x \<le> y"
  then have "0 < y" by simp
  from ilog2_bounds [OF a(1)] ilog2_bounds [OF this] a(2)
  have "2 powi (ilog2 x) < (2::real) powi (ilog2 y + 1)" by linarith
  then have "ilog2 x < ilog2 y + 1" by (rule p2_less_cancel)
  then show ?thesis by simp
qed

lemma rhe_err: "\<bar>of_int (round_half_even q) - q\<bar> \<le> 1 / 2"
proof -
  have "of_int \<lfloor>q\<rfloor> \<le> q" "q < of_int \<lfloor>q\<rfloor> + 1" by linarith+
  then show ?thesis unfolding round_half_even_def Let_def
    by (simp split: if_splits)
qed

lemma rhe_int [simp]: "round_half_even (of_int n) = n"
  by (simp add: round_half_even_def)

lemma rhe_floor: "\<lfloor>q\<rfloor> \<le> round_half_even q" "round_half_even q \<le> \<lfloor>q\<rfloor> + 1"
  unfolding round_half_even_def Let_def by simp_all

lemma rhe_same_floor:
  "\<lfloor>q\<rfloor> = \<lfloor>r\<rfloor> \<Longrightarrow> q \<le> r \<Longrightarrow> round_half_even q \<le> round_half_even r"
  unfolding round_half_even_def Let_def by (simp split: if_splits)

lemma rhe_mono: "q \<le> r \<Longrightarrow> round_half_even q \<le> round_half_even r"
proof -
  assume qr: "q \<le> r"
  then have f: "\<lfloor>q\<rfloor> \<le> \<lfloor>r\<rfloor>" by (rule floor_mono)
  show ?thesis
  proof (cases "\<lfloor>q\<rfloor> = \<lfloor>r\<rfloor>")
    case True
    with qr show ?thesis by (simp add: rhe_same_floor)
  next
    case False
    with f have "\<lfloor>q\<rfloor> + 1 \<le> \<lfloor>r\<rfloor>" by simp
    with rhe_floor(2) [of q] rhe_floor(1) [of r] show ?thesis by linarith
  qed
qed


lemma round_double_alt:
  "round_double x = (if x = 0 then Fin 0 else overflow_check (x < 0) (round_mag \<bar>x\<bar>))"
  by (simp add: round_double_def)

lemma round_at_err: "\<bar>round_at e a - a\<bar> \<le> 2 powi e / 2"
proof -
  have "round_at e a - a = (of_int (round_half_even (a / 2 powi e)) - a / 2 powi e) * 2 powi e"
    by (simp add: round_at_def algebra_simps)
  then have "\<bar>round_at e a - a\<bar> = \<bar>of_int (round_half_even (a / 2 powi e)) - a / 2 powi e\<bar> * 2 powi e"
    by (simp add: abs_mult)
  also have "\<dots> \<le> 1 / 2 * 2 powi e"
    by (intro mult_right_mono rhe_err) simp
  finally show ?thesis by simp
qed

lemma round_at_nonneg: "0 \<le> a \<Longrightarrow> 0 \<le> round_at e a"
proof -
  assume "0 \<le> a"
  then have "0 \<le> a / 2 powi e" by simp
  then have "round_half_even 0 \<le> round_half_even (a / 2 powi e)" by (rule rhe_mono)
  moreover have "round_half_even 0 = 0" using rhe_int [of 0] by simp
  ultimately show ?thesis by (simp add: round_at_def)
qed

lemma round_at_mono: "a \<le> b \<Longrightarrow> round_at e a \<le> round_at e b"
proof -
  assume "a \<le> b"
  then have "a / 2 powi e \<le> b / 2 powi e" by (simp add: divide_right_mono)
  then have "round_half_even (a / 2 powi e) \<le> round_half_even (b / 2 powi e)" by (rule rhe_mono)
  then show ?thesis by (simp add: round_at_def)
qed

lemma round_at_grid: "e' \<le> e \<Longrightarrow> round_at e' (of_int m * 2 powi e) = of_int m * 2 powi e"
proof -
  assume le: "e' \<le> e"
  have "of_int m * 2 powi e / 2 powi e' = of_int m * (2::real) powi (e - e')"
    by (simp add: p2_diff)
  also have "\<dots> = of_int m * 2 ^ nat (e - e')" using le by (simp add: power_int_def)
  also have "\<dots> = of_int (m * 2 ^ nat (e - e'))" by simp
  finally have "round_half_even (of_int m * 2 powi e / 2 powi e') = m * 2 ^ nat (e - e')"
    by (simp only: rhe_int)
  then have "round_at e' (of_int m * 2 powi e) = of_int m * 2 ^ nat (e - e') * 2 powi e'"
    by (simp add: round_at_def)
  also have "\<dots> = of_int m * ((2::real) powi (e - e') * 2 powi e')"
    using le by (simp add: power_int_def)
  also have "\<dots> = of_int m * 2 powi e" by (simp add: p2_diff)
  finally show ?thesis .
qed

lemma double_exp_le:
  assumes "0 < a" "a < 2 powi k" "- 1021 \<le> k"
  shows "double_exp a \<le> k - 53"
proof -
  from ilog2_bounds [OF assms(1)] assms(2) have "2 powi (ilog2 a) < (2::real) powi k" by linarith
  then have "ilog2 a < k" by (rule p2_less_cancel)
  with assms(3) show ?thesis by (simp add: double_exp_def)
qed

lemma double_exp_ge: "- 1074 \<le> double_exp a" "ilog2 a - 52 \<le> double_exp a"
  by (simp_all add: double_exp_def)

lemma round_double_error:
  assumes "\<bar>x\<bar> < 2 powi k" "- 1021 \<le> k" "k \<le> 1023"
  shows "\<exists>v. round_double x = Fin v \<and> \<bar>v - x\<bar> \<le> 2 powi (k - 54)"
proof (cases "x = 0")
  case True
  then show ?thesis by (simp add: round_double_def)
next
  case False
  then have a: "0 < \<bar>x\<bar>" by simp
  let ?v = "round_mag \<bar>x\<bar>"
  from double_exp_le [OF a assms(1,2)] have "2 powi (double_exp \<bar>x\<bar>) \<le> (2::real) powi (k - 53)"
    by (rule p2_mono)
  with round_at_err [of "double_exp \<bar>x\<bar>" "\<bar>x\<bar>"]
  have "\<bar>?v - \<bar>x\<bar>\<bar> \<le> 2 powi (k - 53) / 2" unfolding round_mag_def by linarith
  moreover have "(2::real) powi (k - 53) / 2 = 2 powi (k - 54)"
    using p2_diff [of "k - 53" 1] by simp
  ultimately have err: "\<bar>?v - \<bar>x\<bar>\<bar> \<le> 2 powi (k - 54)" by simp
  have "(2::real) powi (k - 54) \<le> 2 powi k" by (rule p2_mono) simp
  with err assms(1) have "?v < 2 powi k + 2 powi k" by linarith
  also have "\<dots> = 2 powi (k + 1)" using p2_add [of k 1] by simp
  also from assms(3) have "\<dots> \<le> 2 powi 1024" by (intro p2_mono) simp
  finally have nov: "\<not> 2 ^ 1024 \<le> ?v" by simp
  show ?thesis
  proof (cases "x < 0")
    case True
    with False nov have "round_double x = Fin (- ?v)"
      by (simp add: round_double_alt overflow_check_def)
    moreover from True err have "\<bar>- ?v - x\<bar> \<le> 2 powi (k - 54)" by (simp add: abs_if split: if_splits)
    ultimately show ?thesis by blast
  next
    case neg: False
    with False nov have "round_double x = Fin ?v"
      by (simp add: round_double_alt overflow_check_def)
    moreover from neg err have "\<bar>?v - x\<bar> \<le> 2 powi (k - 54)" by (simp add: abs_if split: if_splits)
    ultimately show ?thesis by blast
  qed
qed


lemma ilog2_less: "0 < a \<Longrightarrow> a < 2 powi k \<Longrightarrow> ilog2 a < k"
proof -
  assume "0 < a" "a < 2 powi k"
  with ilog2_bounds [of a] have "2 powi (ilog2 a) < (2::real) powi k" by linarith
  then show ?thesis by (rule p2_less_cancel)
qed

lemma ilog2_ge: "2 powi k \<le> a \<Longrightarrow> k \<le> ilog2 a"
proof -
  assume k: "2 powi k \<le> a"
  then have "0 < a" using p2_pos [of k] by linarith
  with ilog2_bounds [of a] k have "(2::real) powi k < 2 powi (ilog2 a + 1)" by linarith
  then have "k < ilog2 a + 1" by (rule p2_less_cancel)
  then show ?thesis by simp
qed

lemma round_mag_grid:
  assumes "0 < m" "m < 2 ^ 53" "- 1074 \<le> e"
  shows "round_mag (of_int m * 2 powi e) = of_int m * 2 powi e"
proof -
  let ?a = "of_int m * (2::real) powi e"
  from assms(1) have pos: "0 < ?a" by simp
  from assms(2) have "(of_int m :: real) < 2 ^ 53" by (metis of_int_less_numeral_power_cancel_iff)
  then have "?a < 2 ^ 53 * 2 powi e" by (simp add: mult_strict_right_mono)
  also have "\<dots> = 2 powi (53 + e)" using p2_add [of 53 e] by simp
  finally have "ilog2 ?a < 53 + e" using pos by (intro ilog2_less)
  with assms(3) have "double_exp ?a \<le> e" by (simp add: double_exp_def)
  then show ?thesis unfolding round_mag_def by (rule round_at_grid)
qed

lemma round_mag_quotient:
  assumes "0 < a"
  shows "2 powi (ilog2 a - double_exp a) \<le> a / 2 powi (double_exp a)"
    "a / 2 powi (double_exp a) < 2 ^ 53"
proof -
  note b = ilog2_bounds [OF assms]
  have "2 powi (ilog2 a - double_exp a) = 2 powi (ilog2 a) / (2::real) powi (double_exp a)"
    by (rule p2_diff)
  also have "\<dots> \<le> a / 2 powi (double_exp a)" using b by (simp add: divide_right_mono)
  finally show "2 powi (ilog2 a - double_exp a) \<le> a / 2 powi (double_exp a)" .
  have "a / 2 powi (double_exp a) < 2 powi (ilog2 a + 1) / (2::real) powi (double_exp a)"
    using b by (simp add: divide_strict_right_mono)
  also have "\<dots> = 2 powi (ilog2 a + 1 - double_exp a)" by (rule p2_diff [symmetric])
  also have "\<dots> \<le> 2 powi 53" using double_exp_ge(2) [of a] by (intro p2_mono) simp
  finally show "a / 2 powi (double_exp a) < 2 ^ 53" by simp
qed

lemma round_mag_form:
  assumes "0 < a"
  obtains m where "round_mag a = of_int m * 2 powi (double_exp a)" "0 \<le> m" "m \<le> 2 ^ 53"
proof -
  let ?m = "round_half_even (a / 2 powi (double_exp a))"
  have 1: "round_mag a = of_int ?m * 2 powi (double_exp a)"
    by (simp add: round_mag_def round_at_def)
  from assms have "0 \<le> a / 2 powi (double_exp a)" by simp
  then have "round_half_even 0 \<le> ?m" by (rule rhe_mono)
  then have 2: "0 \<le> ?m" using rhe_int [of 0] by simp
  from round_mag_quotient(2) [OF assms]
  have "a / 2 powi (double_exp a) \<le> of_int (2 ^ 53)" by simp
  then have "?m \<le> round_half_even (of_int (2 ^ 53))" by (rule rhe_mono)
  then have 3: "?m \<le> 2 ^ 53" by (simp only: rhe_int)
  from 1 2 3 that show thesis by blast
qed

lemma round_mag_idem:
  assumes "0 < a"
  shows "round_mag a = 0 \<or> round_mag (round_mag a) = round_mag a"
proof -
  obtain m where m: "round_mag a = of_int m * 2 powi (double_exp a)" "0 \<le> m" "m \<le> 2 ^ 53"
    using round_mag_form [OF assms] by blast
  consider "m = 0" | "0 < m" "m < 2 ^ 53" | "m = 2 ^ 53" using m(2,3) by linarith
  then show ?thesis
  proof cases
    case 1
    with m(1) show ?thesis by simp
  next
    case 2
    from round_mag_grid [OF 2 double_exp_ge(1) [of a]] m(1) show ?thesis by simp
  next
    case 3
    have "(of_int m :: real) * 2 powi (double_exp a) = of_int (2 ^ 52) * 2 powi (double_exp a + 1)"
      unfolding 3 using p2_add [of "double_exp a" 1] by simp
    moreover have "round_mag (of_int (2 ^ 52) * 2 powi (double_exp a + 1))
        = of_int (2 ^ 52) * 2 powi (double_exp a + 1)"
      using double_exp_ge(1) [of a] by (intro round_mag_grid) simp_all
    ultimately show ?thesis using m(1) by simp
  qed
qed

lemma round_mag_nonneg: "0 \<le> a \<Longrightarrow> 0 \<le> round_mag a"
  unfolding round_mag_def by (rule round_at_nonneg)

lemma round_mag_mono:
  assumes "0 < a" "a \<le> b"
  shows "round_mag a \<le> round_mag b"
proof -
  from assms have b: "0 < b" by simp
  from ilog2_mono [OF assms] have il: "ilog2 a \<le> ilog2 b" .
  then have e: "double_exp a \<le> double_exp b" by (simp add: double_exp_def)
  show ?thesis
  proof (cases "double_exp a = double_exp b")
    case True
    then show ?thesis unfolding round_mag_def using assms(2) by (simp add: round_at_mono)
  next
    case False
    with e have lt: "double_exp a < double_exp b" by simp
    then have eb: "double_exp b = ilog2 b - 52" and il2: "ilog2 a < ilog2 b"
      by (auto simp: double_exp_def split: if_splits)
    have lo: "2 powi (ilog2 b) \<le> round_mag b"
    proof -
      from round_mag_quotient(1) [OF b] have "of_int (2 ^ 52) \<le> b / 2 powi (double_exp b)"
        unfolding eb by simp
      then have "round_half_even (of_int (2 ^ 52)) \<le> round_half_even (b / 2 powi (double_exp b))"
        by (rule rhe_mono)
      then have "2 ^ 52 \<le> round_half_even (b / 2 powi (double_exp b))" by (simp only: rhe_int)
      then have "(2::real) ^ 52 \<le> of_int (round_half_even (b / 2 powi (double_exp b)))"
        by (metis of_int_numeral of_int_power of_int_le_iff)
      then have "2 ^ 52 * 2 powi (double_exp b) \<le> round_mag b"
        unfolding round_mag_def round_at_def by (simp add: mult_right_mono)
      moreover have "2 ^ 52 * 2 powi (double_exp b) = (2::real) powi (ilog2 b)"
        unfolding eb using p2_add [of 52 "ilog2 b - 52"] by simp
      ultimately show ?thesis by simp
    qed
    define j where "j = max (ilog2 a + 1 - double_exp a) 0"
    have j0: "0 \<le> j" by (simp add: j_def)
    have "a / 2 powi (double_exp a) < 2 powi (ilog2 a + 1) / (2::real) powi (double_exp a)"
      using ilog2_bounds [OF assms(1)] by (simp add: divide_strict_right_mono)
    also have "\<dots> = 2 powi (ilog2 a + 1 - double_exp a)" by (rule p2_diff [symmetric])
    also have "\<dots> \<le> 2 powi j" by (intro p2_mono) (simp add: j_def)
    also have "\<dots> = of_int (2 ^ nat j)" using j0 by (simp add: power_int_def)
    finally have "round_half_even (a / 2 powi (double_exp a)) \<le> round_half_even (of_int (2 ^ nat j))"
      by (intro rhe_mono) simp
    then have "round_half_even (a / 2 powi (double_exp a)) \<le> 2 ^ nat j" by (simp only: rhe_int)
    then have "(of_int (round_half_even (a / 2 powi (double_exp a))) :: real) \<le> 2 ^ nat j"
      by (metis of_int_numeral of_int_power of_int_le_iff)
    then have "round_mag a \<le> 2 ^ nat j * 2 powi (double_exp a)"
      unfolding round_mag_def round_at_def by (simp add: mult_right_mono)
    also have "\<dots> = 2 powi (j + double_exp a)"
      using j0 p2_add [of j "double_exp a"] by (simp add: power_int_def)
    also have "\<dots> \<le> 2 powi (ilog2 b)"
      using il2 lt eb by (intro p2_mono) (simp add: j_def)
    finally show ?thesis using lo by simp
  qed
qed

lemma round_double_not_NaN [simp]: "round_double x \<noteq> NaN"
  by (simp add: round_double_def overflow_check_def)

lemma jle_Fin [simp]: "jle (Fin a) (Fin b) \<longleftrightarrow> a \<le> b"
  by (auto simp: jle_def)

lemma jle_refl: "a \<noteq> NaN \<Longrightarrow> jle a a"
  by (simp add: jle_def)

lemma jle_trans: "jle a b \<Longrightarrow> jle b c \<Longrightarrow> jle a c"
  by (cases a; cases b; cases c) (auto simp: jle_def)

lemma overflow_check_mono:
  "v \<le> w \<Longrightarrow> jle (overflow_check False v) (overflow_check False w)"
  "v \<le> w \<Longrightarrow> jle (overflow_check True w) (overflow_check True v)"
  "0 \<le> v \<Longrightarrow> jle (Fin 0) (overflow_check False v)"
  "0 \<le> v \<Longrightarrow> jle (overflow_check True v) (Fin 0)"
  "0 \<le> v \<Longrightarrow> 0 \<le> w \<Longrightarrow> jle (overflow_check True v) (overflow_check False w)"
  by (auto simp: overflow_check_def jle_def)

lemma round_double_mono:
  assumes "x \<le> y"
  shows "jle (round_double x) (round_double y)"
proof -
  consider "x = 0" | "0 < x" | "x < 0" by linarith
  then show ?thesis
  proof cases
    case 1
    with assms show ?thesis
      by (auto simp: round_double_def intro!: overflow_check_mono round_mag_nonneg)
  next
    case 2
    with assms have "0 < y" by simp
    with 2 assms show ?thesis
      by (auto simp: round_double_def intro!: overflow_check_mono round_mag_mono)
  next
    case 3
    consider "y = 0" | "0 < y" | "y < 0" by linarith
    then show ?thesis
    proof cases
      case 1
      with 3 show ?thesis
        by (auto simp: round_double_def intro!: overflow_check_mono round_mag_nonneg)
    next
      case 2
      with 3 show ?thesis
        by (auto simp: round_double_def intro!: overflow_check_mono round_mag_nonneg)
    next
      case y: 3
      with 3 assms have "0 < \<bar>y\<bar>" "\<bar>y\<bar> \<le> \<bar>x\<bar>" by simp_all
      then have "round_mag \<bar>y\<bar> \<le> round_mag \<bar>x\<bar>" by (rule round_mag_mono)
      with 3 y show ?thesis
        by (simp add: round_double_def overflow_check_mono)
    qed
  qed
qed

lemma round_double_idem:
  assumes "round_double x = Fin v"
  shows "round_double v = Fin v"
proof (cases "x = 0")
  case True
  with assms show ?thesis by (simp add: round_double_def)
next
  case False
  then have a: "0 < \<bar>x\<bar>" by simp
  let ?w = "round_mag \<bar>x\<bar>"
  from False assms have w: "\<not> 2 ^ 1024 \<le> ?w" "v = (if x < 0 then - ?w else ?w)"
    by (auto simp: round_double_def overflow_check_def split: if_splits)
  have w0: "0 \<le> ?w" by (rule round_mag_nonneg) simp
  show ?thesis
  proof (cases "?w = 0")
    case True
    with w(2) have "v = 0" by (cases "x < 0") simp_all
    then show ?thesis by (simp add: round_double_def)
  next
    case nz: False
    with round_mag_idem [OF a] have i: "round_mag ?w = ?w" by simp
    from nz w0 have wp: "0 < ?w" by simp
    show ?thesis
    proof (cases "x < 0")
      case True
      with w(2) have v: "v = - ?w" by simp
      from wp have "round_double (- ?w) = overflow_check True (round_mag ?w)"
        by (simp add: round_double_def)
      with i w(1) show ?thesis unfolding v by (simp add: overflow_check_def)
    next
      case False
      with w(2) have v: "v = ?w" by simp
      from wp have "round_double ?w = overflow_check False (round_mag ?w)"
        by (simp add: round_double_def)
      with i w(1) show ?thesis unfolding v by (simp add: overflow_check_def)
    qed
  qed
qed

lemma is_double_round: "is_double (round_double x)"
  by (cases "round_double x") (auto dest: round_double_idem)

lemma round_double_of_int:
  assumes "\<bar>n\<bar> < 2 ^ 53"
  shows "round_double (of_int n) = Fin (of_int n)"
proof (cases "n = 0")
  case True
  then show ?thesis by (simp add: round_double_def)
next
  case False
  then have p: "0 < \<bar>n\<bar>" by simp
  from round_mag_grid [OF p assms, of 0] have r: "round_mag \<bar>of_int n\<bar> = of_int \<bar>n\<bar>" by simp
  from assms have "(of_int \<bar>n\<bar> :: real) < 2 ^ 53" by (metis of_int_less_numeral_power_cancel_iff)
  also have "\<dots> \<le> 2 ^ 1024" by simp
  finally have "\<not> (2::real) ^ 1024 \<le> of_int \<bar>n\<bar>" by simp
  with False r show ?thesis
    by (auto simp: round_double_def overflow_check_def)
qed

text \<open>One rounding of a result below \<open>2 ^ 41\<close> in magnitude moves it by at most \<open>1 / 2 ^ 13\<close>.\<close>

lemma round_double_near:
  assumes "\<bar>x\<bar> < 2 ^ 41"
  shows "\<exists>v. round_double x = Fin v \<and> \<bar>v - x\<bar> \<le> 1 / 2 ^ 13"
proof -
  from assms have "\<bar>x\<bar> < 2 powi 41" by simp
  from round_double_error [OF this] show ?thesis
    by (simp add: power_int_minus_divide)
qed


section \<open>Facts about the operations\<close>

lemma p2_half: "(2::real) powi (k - 1) = 2 powi k / 2"
  using p2_diff [of k 1] by simp

lemma ilog2_half:
  assumes "0 < a"
  shows "ilog2 (a / 2) = ilog2 a - 1"
proof (rule ilog2_unique)
  from ilog2_bounds [OF assms] show "2 powi (ilog2 a - 1) \<le> a / 2"
    by (simp add: p2_half)
  from ilog2_bounds [OF assms] show "a / 2 < 2 powi (ilog2 a - 1 + 1)"
    using p2_half [of "ilog2 a + 1"] by simp
qed

lemma round_mag_half:
  assumes "2 powi (- 1021) \<le> a"
  shows "round_mag (a / 2) = round_mag a / 2"
proof -
  define e where "e = ilog2 a - 52"
  from assms have pos: "0 < a" using p2_pos [of "- 1021"] by linarith
  from assms have k: "- 1021 \<le> ilog2 a" by (rule ilog2_ge)
  have e: "double_exp a = e" "double_exp (a / 2) = e - 1"
    using k by (simp_all add: double_exp_def ilog2_half [OF pos] e_def)
  have "a / 2 / 2 powi (e - 1) = a / 2 powi e"
    unfolding p2_half by simp
  then show ?thesis
    unfolding round_mag_def e round_at_def by (simp add: p2_half)
qed

lemma overflow_check_half:
  "overflow_check n w = Fin v \<Longrightarrow> 0 \<le> w \<Longrightarrow> overflow_check n (w / 2) = Fin (v / 2)"
  by (auto simp add: overflow_check_def split: if_splits)

lemma round_double_half:
  assumes "round_double x = Fin v" "2 powi (- 1021) \<le> \<bar>x\<bar>"
  shows "round_double (x / 2) = Fin (v / 2)"
proof -
  from assms(2) have nz: "x \<noteq> 0" using p2_pos [of "- 1021"] by auto
  have "\<bar>x / 2\<bar> = \<bar>x\<bar> / 2" by simp
  with round_mag_half [OF assms(2)] have h: "round_mag \<bar>x / 2\<bar> = round_mag \<bar>x\<bar> / 2" by simp
  have n: "0 \<le> round_mag \<bar>x\<bar>" by (rule round_mag_nonneg) simp
  from assms(1) nz have "overflow_check (x < 0) (round_mag \<bar>x\<bar>) = Fin v"
    by (simp add: round_double_def)
  from overflow_check_half [OF this n] have "overflow_check (x < 0) (round_mag \<bar>x\<bar> / 2) = Fin (v / 2)" .
  moreover have "round_double (x / 2) = overflow_check (x < 0) (round_mag \<bar>x / 2\<bar>)"
    using nz by (simp add: round_double_def)
  ultimately show ?thesis by (simp only: h)
qed

lemma jdiv2_exact:
  assumes "round_double r = Fin r" "r = 0 \<or> 2 powi (- 1021) \<le> \<bar>r\<bar>"
  shows "jdiv2 (Fin r) = Fin (r / 2)"
proof (cases "r = 0")
  case True
  then show ?thesis by (simp add: round_double_def)
next
  case False
  with assms(2) have "2 powi (- 1021) \<le> \<bar>r\<bar>" by simp
  from round_double_half [OF assms(1) this] show ?thesis by simp
qed

lemma jle_not_jlt: "jle a b \<Longrightarrow> \<not> jlt b a"
  by (cases a; cases b) (auto simp add: jle_def)

lemma jlt_round_double: "jlt (round_double a) (round_double b) \<Longrightarrow> a < b"
proof (rule ccontr)
  assume l: "jlt (round_double a) (round_double b)" and "\<not> a < b"
  then have "b \<le> a" by simp
  then have "jle (round_double b) (round_double a)" by (rule round_double_mono)
  with l show False by (simp add: jle_not_jlt)
qed

lemma jadd_near:
  "\<bar>a + b\<bar> < 2 ^ 41 \<Longrightarrow> \<exists>v. jadd (Fin a) (Fin b) = Fin v \<and> \<bar>v - (a + b)\<bar> \<le> 1 / 2 ^ 13"
  using round_double_near [of "a + b"] by simp

lemma jsub_near:
  "\<bar>a - b\<bar> < 2 ^ 41 \<Longrightarrow> \<exists>v. jsub (Fin a) (Fin b) = Fin v \<and> \<bar>v - (a - b)\<bar> \<le> 1 / 2 ^ 13"
  using round_double_near [of "a - b"] by (simp add: jsub_def)

lemma jdiv2_near:
  "\<bar>a\<bar> < 2 ^ 41 \<Longrightarrow> \<exists>v. jdiv2 (Fin a) = Fin v \<and> \<bar>v - a / 2\<bar> \<le> 1 / 2 ^ 13"
  using round_double_near [of "a / 2"] by simp

lemma jadd_finite: "finite_num (jadd a b) \<Longrightarrow> finite_num a \<and> finite_num b"
  by (cases a; cases b) simp_all

lemma jsub_finite: "finite_num (jsub a b) \<Longrightarrow> finite_num a \<and> finite_num b"
  by (cases a; cases b) (simp_all add: jsub_def)

lemma jdiv2_finite: "finite_num (jdiv2 a) \<Longrightarrow> finite_num a"
  by (cases a) simp_all

lemma jlt_finite_between: "jlt a b \<Longrightarrow> jlt b c \<Longrightarrow> finite_num b"
  by (cases a; cases b; cases c) simp_all

lemma jlt_not_NaN: "jlt a b \<Longrightarrow> a \<noteq> NaN \<and> b \<noteq> NaN"
  by (cases a; cases b) simp_all

section \<open>Facts about the pattern\<close>

lemma match_prefix_Some: "match_prefix p s = Some r \<longleftrightarrow> s = p @ r"
  by (induction p s rule: match_prefix.induct) auto

lemma FNSKU_REGEX_test_iff:
  "FNSKU_REGEX_test s \<longleftrightarrow>
     (\<exists>r. (s = ''X00'' @ r \<or> s = ''B0'' @ r) \<and> 8 \<le> length r \<and> length r \<le> 10
        \<and> (\<forall>c\<in>set r. is_upper_or_digit c))"
  unfolding FNSKU_REGEX_test_def match_tail_def list_all_iff
  by (auto simp: match_prefix_Some split: option.splits)

lemma is_upper_or_digit_set:
  "is_upper_or_digit c \<longleftrightarrow> c \<in> set ''ABCDEFGHIJKLMNOPQRSTUVWXYZ0123456789''"
  by (cases c) (simp add: is_upper_or_digit_def; blast)

lemma FNSKU_REGEX_test_chars:
  assumes "FNSKU_REGEX_test s"
  shows "\<forall>c\<in>set s. is_upper_or_digit c"
proof -
  have "is_upper_or_digit CHR ''X''" "is_upper_or_digit CHR ''B''" "is_upper_or_digit CHR ''0''"
    by (simp_all add: is_upper_or_digit_def)
  with assms show ?thesis by (auto simp: FNSKU_REGEX_test_iff)
qed

lemma FNSKU_REGEX_test_length: "FNSKU_REGEX_test s \<Longrightarrow> 10 \<le> length s \<and> length s \<le> 13"
  by (auto simp: FNSKU_REGEX_test_iff)

lemmas anchor_eval =
  isAnchor_def trim_def is_space_def FNSKU_REGEX_test_def match_tail_def is_upper_or_digit_def

lemma isAnchor_B0: "isAnchor \<lparr>str = ''B0ABCDEFGH'', box = b\<rparr>"
  by (simp add: anchor_eval)

lemma isAnchor_SomeText: "\<not> isAnchor \<lparr>str = ''SomeText'', box = b\<rparr>"
  by (simp add: anchor_eval)

section \<open>Facts about the clusterer\<close>

lemma isAnchor_transformItem: "isAnchor (transformItem pageHeight item) = isAnchor item"
  by (simp add: isAnchor_def transformItem_def)

lemma anchors_transformed:
  "filter isAnchor (map (transformItem pageHeight) items)
     = map (transformItem pageHeight) (filter isAnchor items)"
  by (induction items) (simp_all add: isAnchor_transformItem)

lemma findLabelsByFnsku_map:
  "findLabelsByFnsku items pageHeight
     = map (\<lambda>item. labelOfAnchor (map (transformItem pageHeight) items) pageHeight
                      (transformItem pageHeight item))
           (filter isAnchor items)"
  by (simp add: findLabelsByFnsku_def anchors_transformed comp_def)

lemma label_items_labelOfAnchor:
  "label_items (labelOfAnchor ts pageHeight anchor) = filter (inSearchBox (searchBoxOf anchor)) ts"
  by (simp add: labelOfAnchor_def Let_def)

text \<open>Evaluation of the arithmetic and of the clusterer on given numbers.\<close>

lemmas dbl_eval =
  literal_def round_double_def overflow_check_def round_mag_def round_at_def double_exp_def
  ilog2_def compute_floorlog round_half_even_def Let_def

lemmas cluster_eval =
  findLabelsByFnsku_def transformItem_def labelOfAnchor_def searchBoxOf_def inSearchBox_def
  unionBounds_def unionStep_def emptyBounds_def jsub_def jgt_def jmin_def jmax_def

lemmas clean_eval =
  cleanText_def toLowerCase_def strip_spaces_def is_space_def lower_char_def char_of_def bit_0

lemma scenarioItems_eq:
  "scenarioItems =
     [\<lparr>str = ''B0ABCDEFGH'',
       box = \<lparr>rect_x = Fin 100, rect_y = Fin 700, rect_width = literal 55.00000000000001,
              rect_height = Fin 10\<rparr>\<rparr>,
      \<lparr>str = ''SomeText'',
       box = \<lparr>rect_x = Fin 90, rect_y = Fin 690, rect_width = Fin 44, rect_height = Fin 10\<rparr>\<rparr>]"
  by (simp add: scenarioItems_def scenarioBlocks_def textItemOf_def jgt_def dbl_eval)

lemma scenario_labels:
  "findLabelsByFnsku scenarioItems (Fin 800) =
     [\<lparr>label_box = \<lparr>rect_x = Fin 90, rect_y = Fin 690, rect_width = Fin 65, rect_height = Fin 20\<rparr>,
       label_items =
         [\<lparr>str = ''B0ABCDEFGH'',
           box = \<lparr>rect_x = Fin 100, rect_y = Fin 90, rect_width = literal 55.00000000000001,
                  rect_height = Fin 10\<rparr>\<rparr>,
          \<lparr>str = ''SomeText'',
           box = \<lparr>rect_x = Fin 90, rect_y = Fin 100, rect_width = Fin 44, rect_height = Fin 10\<rparr>\<rparr>]\<rparr>]"
  by (simp add: scenarioItems_eq isAnchor_B0 isAnchor_SomeText cluster_eval dbl_eval)

lemma scenarioLabel_eq:
  "scenarioLabel =
     \<lparr>label_box = \<lparr>rect_x = Fin 90, rect_y = Fin 690, rect_width = Fin 65, rect_height = Fin 20\<rparr>,
      label_items =
        [\<lparr>str = ''B0ABCDEFGH'',
          box = \<lparr>rect_x = Fin 100, rect_y = Fin 90, rect_width = literal 55.00000000000001,
                 rect_height = Fin 10\<rparr>\<rparr>,
         \<lparr>str = ''SomeText'',
          box = \<lparr>rect_x = Fin 90, rect_y = Fin 100, rect_width = Fin 44, rect_height = Fin 10\<rparr>\<rparr>]\<rparr>"
  by (simp add: scenarioLabel_def scenario_labels)

section \<open>The anchor test\<close>

text \<open>
  C2, as amended. A token is an anchor if and only if its trimmed text is \<^verbatim>\<open>X00\<close> or
  \<^verbatim>\<open>B0\<close> followed by 8 to 10 characters from A to Z and 0 to 9, with nothing before
  or after. In particular a token whose trimmed text is \<^verbatim>\<open>A012345678\<close> is not an
  anchor; a text with a character outside A to Z and 0 to 9 left after trimming is not an
  anchor, whatever it contains; and no text shorter than 10 or longer than 13 characters
  after trimming is an anchor.
\<close>

theorem isAnchor_full_match:
  "(isAnchor item \<longleftrightarrow>
      (\<exists>r. (trim (str item) = ''X00'' @ r \<or> trim (str item) = ''B0'' @ r)
           \<and> 8 \<le> length r \<and> length r \<le> 10
           \<and> (\<forall>c\<in>set r. c \<in> set ''ABCDEFGHIJKLMNOPQRSTUVWXYZ0123456789'')))
   \<and> (trim (str item) = ''A012345678'' \<longrightarrow> \<not> isAnchor item)
   \<and> ((\<exists>c\<in>set (trim (str item)). c \<notin> set ''ABCDEFGHIJKLMNOPQRSTUVWXYZ0123456789'')
        \<longrightarrow> \<not> isAnchor item)
   \<and> (length (trim (str item)) < 10 \<or> 13 < length (trim (str item)) \<longrightarrow> \<not> isAnchor item)"
proof (intro conjI impI)
  show "isAnchor item \<longleftrightarrow>
      (\<exists>r. (trim (str item) = ''X00'' @ r \<or> trim (str item) = ''B0'' @ r)
           \<and> 8 \<le> length r \<and> length r \<le> 10
           \<and> (\<forall>c\<in>set r. c \<in> set ''ABCDEFGHIJKLMNOPQRSTUVWXYZ0123456789''))"
    unfolding isAnchor_def FNSKU_REGEX_test_iff is_upper_or_digit_set ..
next
  assume "trim (str item) = ''A012345678''"
  then show "\<not> isAnchor item"
    by (simp add: isAnchor_def FNSKU_REGEX_test_def)
next
  assume "\<exists>c\<in>set (trim (str item)). c \<notin> set ''ABCDEFGHIJKLMNOPQRSTUVWXYZ0123456789''"
  then show "\<not> isAnchor item"
    unfolding isAnchor_def is_upper_or_digit_set [symmetric]
    using FNSKU_REGEX_test_chars by blast
next
  assume "length (trim (str item)) < 10 \<or> 13 < length (trim (str item))"
  then show "\<not> isAnchor item"
    unfolding isAnchor_def using FNSKU_REGEX_test_length [of "trim (str item)"] by auto
qed

theorem isAnchor_full_match_witness:
  "isAnchor \<lparr>str = ''  X00ABCDEFGH1 '', box = zeroBox\<rparr>
   \<and> \<not> isAnchor \<lparr>str = ''A012345678'', box = zeroBox\<rparr>
   \<and> \<not> isAnchor \<lparr>str = ''SKU B0ABCDEFGH'', box = zeroBox\<rparr>
   \<and> \<not> isAnchor \<lparr>str = ''B0ABCDEFGH1234'', box = zeroBox\<rparr>"
proof -
  have t: "trim ''  X00ABCDEFGH1 '' = ''X00'' @ ''ABCDEFGH1''"
    "trim ''A012345678'' = ''A012345678''"
    "trim ''SKU B0ABCDEFGH'' = ''SKU B0ABCDEFGH''"
    "trim ''B0ABCDEFGH1234'' = ''B0ABCDEFGH1234''"
    by (simp_all add: trim_def is_space_def)
  have "isAnchor \<lparr>str = ''  X00ABCDEFGH1 '', box = zeroBox\<rparr>"
    using isAnchor_full_match [of "\<lparr>str = ''  X00ABCDEFGH1 '', box = zeroBox\<rparr>"] t(1)
    by simp
  moreover have "\<not> isAnchor \<lparr>str = ''A012345678'', box = zeroBox\<rparr>"
    using isAnchor_full_match [of "\<lparr>str = ''A012345678'', box = zeroBox\<rparr>"] t(2) by simp
  moreover have "\<not> isAnchor \<lparr>str = ''SKU B0ABCDEFGH'', box = zeroBox\<rparr>"
    using isAnchor_full_match [of "\<lparr>str = ''SKU B0ABCDEFGH'', box = zeroBox\<rparr>"] t(3) by simp
  moreover have "\<not> isAnchor \<lparr>str = ''B0ABCDEFGH1234'', box = zeroBox\<rparr>"
    using isAnchor_full_match [of "\<lparr>str = ''B0ABCDEFGH1234'', box = zeroBox\<rparr>"] t(4) by simp
  ultimately show ?thesis by simp
qed

text \<open>
  The claim as first stated also says that a matching string embedded in a longer text is
  never an anchor. The match \<^verbatim>\<open>B012345678\<close> followed by one more digit, or preceded by
  \<^verbatim>\<open>X00\<close>, is a longer text that is an anchor.
\<close>

theorem embedded_match_counterexample:
  "FNSKU_REGEX_test ''B012345678''
   \<and> isAnchor \<lparr>str = ''B012345678'' @ ''9'', box = zeroBox\<rparr>
   \<and> isAnchor \<lparr>str = ''X00'' @ ''B012345678'', box = zeroBox\<rparr>"
  by (simp add: anchor_eval)

section \<open>Empty search text\<close>

lemma cleanText_Nil: "cleanText s = [] \<longleftrightarrow> strip_spaces s = []"
  by (simp add: cleanText_def toLowerCase_def)

lemma findTextInLabel_empty_search:
  "findTextInLabel label [] = []
     \<longleftrightarrow> (\<forall>item\<in>set (label_items label). strip_spaces (str item) \<noteq> [])"
  by (auto simp: findTextInLabel_def Let_def cleanText_Nil filter_empty_conv cleanText_def
      toLowerCase_def strip_spaces_def)

text \<open>
  C8, as amended. When the text to remove is empty, the handler skips the removal-area
  computation, so no rectangle is drawn for any label and any page. The computation
  itself, given the empty search text, returns the empty list if and only if no member
  token of the label has a text that is empty once its white space is removed.
\<close>

theorem empty_search_no_rectangles:
  "filter isRectangle (drawLabel widthOf [] addMadeInChina fontSize label) = []
   \<and> filter isRectangle (drawPage widthOf [] addMadeInChina fontSize textItems height) = []
   \<and> (findTextInLabel label [] = []
        \<longleftrightarrow> (\<forall>item\<in>set (label_items label). strip_spaces (str item) \<noteq> []))"
proof -
  have 1: "filter isRectangle (drawLabel widthOf [] addMadeInChina fontSize l) = []" for l
    by (simp add: drawLabel_def Let_def)
  have 2: "filter isRectangle (drawPage widthOf [] addMadeInChina fontSize textItems height) = []"
    unfolding drawPage_def filter_concat by (simp add: comp_def 1)
  from 1 2 findTextInLabel_empty_search show ?thesis by blast
qed

theorem empty_search_no_rectangles_witness:
  "findTextInLabel scenarioLabel [] = []
   \<and> drawPage (\<lambda>text size. Fin 52) [] True (Fin 8) scenarioItems (Fin 800)
       = [DrawText ''Made in China'' (Fin (193 / 2)) (Fin 692) (Fin 8)]"
proof -
  have "\<forall>item\<in>set (label_items scenarioLabel). strip_spaces (str item) \<noteq> []"
    by (simp add: scenarioLabel_eq strip_spaces_def is_space_def)
  with empty_search_no_rectangles [of "\<lambda>text size. Fin 52" True "Fin 8" scenarioLabel
      scenarioItems "Fin 800"]
  have "findTextInLabel scenarioLabel [] = []" by blast
  then show ?thesis
    by (simp add: drawPage_def drawLabel_def scenario_labels jsub_def dbl_eval)
qed

text \<open>
  The claim as first stated promises the empty list from the computation for every
  label. The label of the scenario with a third token whose text is one space gets one
  rectangle, around that token, for the empty search text.
\<close>

theorem empty_search_counterexample:
  "findTextInLabel blankLabel []
     = [\<lparr>rect_x = Fin 88, rect_y = Fin 588, rect_width = Fin (19 / 2), rect_height = Fin 14\<rparr>]"
  by (simp add: blankLabel_def blankBlocks_def scenarioBlocks_def textItemOf_def anchor_eval
      cluster_eval findTextInLabel_def cleanText_def toLowerCase_def strip_spaces_def dbl_eval)

section \<open>Purity of the removal-area computation\<close>

text \<open>
  C9. Run with the label in the state, \<open>findTextInLabel\<close> returns a result that depends
  on the label and the search text only, and leaves the label, with its member tokens,
  as it was; run twice in a row on the same search text it returns the same list of
  Rects both times.
\<close>

theorem findTextInLabel_pure:
  "run_state (findTextInLabel_st searchText) label = (findTextInLabel label searchText, label)
   \<and> run_state (do { first \<leftarrow> findTextInLabel_st searchText;
                      second \<leftarrow> findTextInLabel_st searchText;
                      State_Monad.return (first, second) }) label
       = ((findTextInLabel label searchText, findTextInLabel label searchText), label)"
proof -
  have run: "run_state (findTextInLabel_st searchText) l = (findTextInLabel l searchText, l)" for l
    by (simp add: findTextInLabel_st_def findTextInLabel_def unionBounds_def Let_def)
  then show ?thesis by simp
qed

theorem findTextInLabel_pure_witness:
  "run_state (do { first \<leftarrow> findTextInLabel_st ''SomeText'';
                   second \<leftarrow> findTextInLabel_st ''SomeText'';
                   State_Monad.return (first, second) }) scenarioLabel
     = (([\<lparr>rect_x = Fin 88, rect_y = Fin 598, rect_width = Fin 48, rect_height = Fin 14\<rparr>],
         [\<lparr>rect_x = Fin 88, rect_y = Fin 598, rect_width = Fin 48, rect_height = Fin 14\<rparr>]),
        scenarioLabel)"
proof -
  have "findTextInLabel scenarioLabel ''SomeText''
      = [\<lparr>rect_x = Fin 88, rect_y = Fin 598, rect_width = Fin 48, rect_height = Fin 14\<rparr>]"
    by (simp add: findTextInLabel_def scenarioLabel_eq clean_eval unionBounds_def
        unionStep_def emptyBounds_def jmin_def jmax_def jsub_def dbl_eval)
  with findTextInLabel_pure [of "''SomeText''" scenarioLabel] show ?thesis by simp
qed

section \<open>One label per anchor\<close>

lemma inSearchBox_in_window: "inSearchBox (searchBoxOf anchor) = in_window anchor"
  by (simp add: inSearchBox_def searchBoxOf_def in_window_def jgt_def Let_def fun_eq_iff)

lemma label_items_in_window:
  "label_items (labelOfAnchor ts pageHeight anchor) = filter (in_window anchor) ts"
  by (simp add: labelOfAnchor_def Let_def inSearchBox_in_window)

lemma label_box_labelOfAnchor:
  "label_box (labelOfAnchor ts pageHeight anchor)
     = \<lparr>rect_x = minX (unionBounds (filter (in_window anchor) ts)),
        rect_y = jsub pageHeight (maxY (unionBounds (filter (in_window anchor) ts))),
        rect_width = jsub (maxX (unionBounds (filter (in_window anchor) ts)))
                          (minX (unionBounds (filter (in_window anchor) ts))),
        rect_height = jsub (maxY (unionBounds (filter (in_window anchor) ts)))
                           (minY (unionBounds (filter (in_window anchor) ts)))\<rparr>"
  by (simp add: labelOfAnchor_def Let_def inSearchBox_in_window)

text \<open>
  C1. For every token list and page height, \<open>findLabelsByFnsku\<close> returns as many labels
  as there are tokens whose trimmed text matches the identifier pattern, in the order of
  those tokens; nothing is merged or dropped. The i-th label is anchored at the i-th such
  token: its items are exactly the transformed tokens of the page that pass the window
  rule around that token after the coordinate transform, and its box is computed from
  the union box of those items. The transform replaces y by pageHeight - y - height and
  keeps the rest.
\<close>

theorem findLabelsByFnsku_one_label_per_anchor:
  "length (findLabelsByFnsku items pageHeight)
     = length (filter (\<lambda>item. FNSKU_REGEX_test (trim (str item))) items)
   \<and> (\<forall>i < length (filter (\<lambda>item. FNSKU_REGEX_test (trim (str item))) items).
         label_items (findLabelsByFnsku items pageHeight ! i)
           = filter (in_window (transformItem pageHeight
                       (filter (\<lambda>item. FNSKU_REGEX_test (trim (str item))) items ! i)))
               (map (transformItem pageHeight) items)
         \<and> label_box (findLabelsByFnsku items pageHeight ! i)
           = \<lparr>rect_x = minX (unionBounds (label_items (findLabelsByFnsku items pageHeight ! i))),
              rect_y = jsub pageHeight
                         (maxY (unionBounds (label_items (findLabelsByFnsku items pageHeight ! i)))),
              rect_width =
                jsub (maxX (unionBounds (label_items (findLabelsByFnsku items pageHeight ! i))))
                     (minX (unionBounds (label_items (findLabelsByFnsku items pageHeight ! i)))),
              rect_height =
                jsub (maxY (unionBounds (label_items (findLabelsByFnsku items pageHeight ! i))))
                     (minY (unionBounds (label_items (findLabelsByFnsku items pageHeight ! i))))\<rparr>)
   \<and> transformItem pageHeight r
       = \<lparr>str = str r,
          box = \<lparr>rect_x = rect_x (box r),
                 rect_y = jsub (jsub pageHeight (rect_y (box r))) (rect_height (box r)),
                 rect_width = rect_width (box r), rect_height = rect_height (box r)\<rparr>\<rparr>"
proof -
  have a: "(\<lambda>item. FNSKU_REGEX_test (trim (str item))) = isAnchor"
    by (simp add: isAnchor_def fun_eq_iff)
  have t: "transformItem pageHeight r
       = \<lparr>str = str r,
          box = \<lparr>rect_x = rect_x (box r),
                 rect_y = jsub (jsub pageHeight (rect_y (box r))) (rect_height (box r)),
                 rect_width = rect_width (box r), rect_height = rect_height (box r)\<rparr>\<rparr>"
    by (cases r, cases "box r") (simp add: transformItem_def)
  have l: "findLabelsByFnsku items pageHeight ! i
      = labelOfAnchor (map (transformItem pageHeight) items) pageHeight
          (transformItem pageHeight (filter isAnchor items ! i))"
    if "i < length (filter isAnchor items)" for i
    using that by (simp add: findLabelsByFnsku_map)
  have n: "length (findLabelsByFnsku items pageHeight) = length (filter isAnchor items)"
    by (simp add: findLabelsByFnsku_map)
  show ?thesis
    unfolding a using n t
    by (simp add: l label_items_in_window label_box_labelOfAnchor)
qed

lemma farItems_eq:
  "farItems =
     [\<lparr>str = ''B0ABCDEFGH'',
       box = \<lparr>rect_x = Fin 100, rect_y = Fin 700, rect_width = literal 55.00000000000001,
              rect_height = Fin 10\<rparr>\<rparr>,
      \<lparr>str = ''SomeText'',
       box = \<lparr>rect_x = Fin 90, rect_y = Fin 690, rect_width = Fin 44, rect_height = Fin 10\<rparr>\<rparr>,
      \<lparr>str = ''X00ABCDEFGH1'',
       box = \<lparr>rect_x = Fin 5100, rect_y = Fin 700, rect_width = Fin 66, rect_height = Fin 10\<rparr>\<rparr>,
      \<lparr>str = ''Other'',
       box = \<lparr>rect_x = Fin 5090.5, rect_y = Fin 690, rect_width = literal 27.500000000000004,
              rect_height = Fin 10\<rparr>\<rparr>,
      \<lparr>str = ''B0ABCDEFGH'',
       box = \<lparr>rect_x = Fin 100, rect_y = Fin 700, rect_width = literal 55.00000000000001,
              rect_height = Fin 10\<rparr>\<rparr>]"
  by (simp add: farItems_def farBlocks_def scenarioBlocks_def textItemOf_def jgt_def dbl_eval)


theorem findLabelsByFnsku_one_label_per_anchor_witness:
  "length (findLabelsByFnsku farItems (Fin 800)) = 3
   \<and> label_items (findLabelsByFnsku farItems (Fin 800) ! 0)
       = [transformItem (Fin 800) (farItems ! 0), transformItem (Fin 800) (farItems ! 1),
          transformItem (Fin 800) (farItems ! 4)]
   \<and> label_items (findLabelsByFnsku farItems (Fin 800) ! 1)
       = [\<lparr>str = ''X00ABCDEFGH1'',
           box = \<lparr>rect_x = Fin 5100, rect_y = Fin 90, rect_width = Fin 66, rect_height = Fin 10\<rparr>\<rparr>,
          \<lparr>str = ''Other'',
           box = \<lparr>rect_x = Fin 5090.5, rect_y = Fin 100, rect_width = literal 27.500000000000004,
                  rect_height = Fin 10\<rparr>\<rparr>]
   \<and> label_box (findLabelsByFnsku farItems (Fin 800) ! 1)
       = \<lparr>rect_x = Fin 5090.5, rect_y = Fin 690, rect_width = Fin 75.5, rect_height = Fin 20\<rparr>
   \<and> label_items (findLabelsByFnsku farItems (Fin 800) ! 2)
       = label_items (findLabelsByFnsku farItems (Fin 800) ! 0)"
proof -
  let ?L = "findLabelsByFnsku farItems (Fin 800)"
  have f: "filter (\<lambda>item. FNSKU_REGEX_test (trim (str item))) farItems
      = [farItems ! 0, farItems ! 2, farItems ! 4]"
    by (simp add: farItems_eq anchor_eval)
  note T = findLabelsByFnsku_one_label_per_anchor [of farItems "Fin 800", unfolded f]
  from T have n: "length ?L = 3" by simp
  from T have i0: "label_items (?L ! 0)
      = filter (in_window (transformItem (Fin 800) (farItems ! 0)))
          (map (transformItem (Fin 800)) farItems)"
    and i1: "label_items (?L ! 1)
      = filter (in_window (transformItem (Fin 800) (farItems ! 2)))
          (map (transformItem (Fin 800)) farItems)"
    and i2: "label_items (?L ! 2)
      = filter (in_window (transformItem (Fin 800) (farItems ! 4)))
          (map (transformItem (Fin 800)) farItems)"
    and b1: "label_box (?L ! 1)
      = \<lparr>rect_x = minX (unionBounds (label_items (?L ! 1))),
         rect_y = jsub (Fin 800) (maxY (unionBounds (label_items (?L ! 1)))),
         rect_width = jsub (maxX (unionBounds (label_items (?L ! 1))))
                           (minX (unionBounds (label_items (?L ! 1)))),
         rect_height = jsub (maxY (unionBounds (label_items (?L ! 1))))
                            (minY (unionBounds (label_items (?L ! 1))))\<rparr>"
    by simp_all
  have e0: "label_items (?L ! 0)
       = [transformItem (Fin 800) (farItems ! 0), transformItem (Fin 800) (farItems ! 1),
          transformItem (Fin 800) (farItems ! 4)]"
    unfolding i0 by (simp add: farItems_eq transformItem_def in_window_def jsub_def dbl_eval)
  have e1: "label_items (?L ! 1)
       = [\<lparr>str = ''X00ABCDEFGH1'',
           box = \<lparr>rect_x = Fin 5100, rect_y = Fin 90, rect_width = Fin 66, rect_height = Fin 10\<rparr>\<rparr>,
          \<lparr>str = ''Other'',
           box = \<lparr>rect_x = Fin 5090.5, rect_y = Fin 100, rect_width = literal 27.500000000000004,
                  rect_height = Fin 10\<rparr>\<rparr>]"
    unfolding i1 by (simp add: farItems_eq transformItem_def in_window_def jsub_def dbl_eval)
  have e2: "label_items (?L ! 2) = label_items (?L ! 0)"
    unfolding i2 i0 by (simp add: farItems_eq)
  have eb: "label_box (?L ! 1)
       = \<lparr>rect_x = Fin 5090.5, rect_y = Fin 690, rect_width = Fin 75.5, rect_height = Fin 20\<rparr>"
    unfolding b1 e1
    by (simp add: unionBounds_def unionStep_def emptyBounds_def jmin_def jmax_def jsub_def dbl_eval)
  from n e0 e1 eb e2 show ?thesis by blast
qed


section \<open>The window rule\<close>

lemma jlt_extremes [simp]: "\<not> jlt x NegInfinity" "\<not> jlt Infinity x"
  by (cases x; simp)+

lemma window_finite:
  "jlt (jsub a (Fin c)) b \<Longrightarrow> jlt b (jadd a (Fin c)) \<Longrightarrow> finite_num a \<and> finite_num b"
  by (cases a; cases b) (simp_all add: jsub_def)

lemma in_window_finite:
  assumes "in_window anchor t"
  shows "finite_num (rect_x (box anchor)) \<and> finite_num (rect_y (box anchor))
     \<and> finite_num (rect_x (box t)) \<and> finite_num (rect_y (box t))
     \<and> finite_num (rect_height (box t))"
proof -
  from assms have x: "jlt (jsub (rect_x (box anchor)) (Fin 120)) (rect_x (box t))"
      "jlt (rect_x (box t)) (jadd (rect_x (box anchor)) (Fin 120))"
    and y: "jlt (jsub (rect_y (box anchor)) (Fin 60))
              (jadd (rect_y (box t)) (jdiv2 (rect_height (box t))))"
      "jlt (jadd (rect_y (box t)) (jdiv2 (rect_height (box t))))
              (jadd (rect_y (box anchor)) (Fin 60))"
    by (simp_all add: in_window_def)
  from window_finite [OF y] jadd_finite jdiv2_finite
  have "finite_num (rect_y (box anchor)) \<and> finite_num (rect_y (box t))
     \<and> finite_num (rect_height (box t))" by blast
  with window_finite [OF x] show ?thesis by simp
qed

lemma finite_num_Fin: "finite_num a \<longleftrightarrow> (\<exists>r. a = Fin r)"
  by (cases a) simp_all

lemma in_window_exact:
  assumes "in_window anchor t"
    and "rect_x (box anchor) = Fin ax" "rect_y (box anchor) = Fin ay"
    and "rect_x (box t) = Fin tx" "rect_y (box t) = Fin ty" "rect_height (box t) = Fin th"
    and "round_double tx = Fin tx" "round_double th = Fin th"
    and "th = 0 \<or> 2 powi (- 1021) \<le> \<bar>th\<bar>"
  shows "ax - 120 < tx \<and> tx < ax + 120 \<and> ay - 60 < ty + th / 2 \<and> ty + th / 2 < ay + 60"
proof -
  note h = jdiv2_exact [OF assms(8,9)]
  from assms(1) have "jlt (round_double (ax - 120)) (round_double tx)"
      "jlt (round_double tx) (round_double (ax + 120))"
      "jlt (round_double (ay - 60)) (round_double (ty + th / 2))"
      "jlt (round_double (ty + th / 2)) (round_double (ay + 60))"
    unfolding in_window_def assms(2-6) h assms(7) by (simp_all add: jsub_def)
  then show ?thesis by (simp add: jlt_round_double)
qed

lemma in_window_margin:
  assumes "rect_x (box anchor) = Fin ax" "rect_y (box anchor) = Fin ay"
    and "rect_x (box t) = Fin tx" "rect_y (box t) = Fin ty" "rect_height (box t) = Fin th"
    and "\<bar>ax\<bar> < 2 ^ 40" "\<bar>ay\<bar> < 2 ^ 40" "\<bar>ty\<bar> < 2 ^ 40" "\<bar>th\<bar> < 2 ^ 40"
    and "ax - 120 + 1 / 2 ^ 11 \<le> tx" "tx \<le> ax + 120 - 1 / 2 ^ 11"
    and "ay - 60 + 1 / 2 ^ 11 \<le> ty + th / 2" "ty + th / 2 \<le> ay + 60 - 1 / 2 ^ 11"
  shows "in_window anchor t"
proof -
  from assms(6) have "\<bar>ax - 120\<bar> < 2 ^ 41" "\<bar>ax + 120\<bar> < 2 ^ 41" by simp_all
  from jsub_near [OF this(1)] jadd_near [OF this(2)] obtain xl xu where
    xl: "jsub (Fin ax) (Fin 120) = Fin xl" "\<bar>xl - (ax - 120)\<bar> \<le> 1 / 2 ^ 13"
    and xu: "jadd (Fin ax) (Fin 120) = Fin xu" "\<bar>xu - (ax + 120)\<bar> \<le> 1 / 2 ^ 13" by blast
  from assms(7) have "\<bar>ay - 60\<bar> < 2 ^ 41" "\<bar>ay + 60\<bar> < 2 ^ 41" by simp_all
  from jsub_near [OF this(1)] jadd_near [OF this(2)] obtain yl yu where
    yl: "jsub (Fin ay) (Fin 60) = Fin yl" "\<bar>yl - (ay - 60)\<bar> \<le> 1 / 2 ^ 13"
    and yu: "jadd (Fin ay) (Fin 60) = Fin yu" "\<bar>yu - (ay + 60)\<bar> \<le> 1 / 2 ^ 13" by blast
  from assms(9) have "\<bar>th\<bar> < 2 ^ 41" by simp
  from jdiv2_near [OF this] obtain h2 where
    h2: "jdiv2 (Fin th) = Fin h2" "\<bar>h2 - th / 2\<bar> \<le> 1 / 2 ^ 13" by blast
  from assms(8,9) h2(2) have "\<bar>ty + h2\<bar> < 2 ^ 41" by (simp add: abs_if split: if_splits)
  from jadd_near [OF this] obtain c where
    c: "jadd (Fin ty) (Fin h2) = Fin c" "\<bar>c - (ty + h2)\<bar> \<le> 1 / 2 ^ 13" by blast
  from xl(2) xu(2) assms(10,11) have "xl < tx" "tx < xu" by (simp_all add: abs_if split: if_splits)
  moreover from yl(2) yu(2) c(2) h2(2) assms(12,13) have "yl < c" "c < yu" by (simp_all add: abs_if split: if_splits)
  ultimately show ?thesis
    unfolding in_window_def assms(1-5) xl(1) xu(1) yl(1) yu(1) h2(1) c(1) by simp
qed


text \<open>
  C3, as amended. The members of the label of an anchor are the transformed tokens of the
  page (y replaced by pageHeight - y - height) that pass four strict comparisons, which
  the code evaluates on doubles: x above the anchor's x - 120 and below its x + 120, and
  the vertical centre y + height / 2 above the anchor's y - 60 and below its y + 60, each
  sum and difference rounded to a double; nothing else of the token is looked at. Every
  member and its anchor have finite x, y and height, and a member whose x and height are
  doubles, the height zero or not subnormal, satisfies the four strict inequalities over
  the reals. Conversely a transformed token of the page that satisfies them with a margin
  of \<open>2^-11\<close>, all magnitudes below \<open>2^40\<close>, is a member. Within the margin the
  outcome depends on the rounding.
\<close>

theorem label_membership_window:
  assumes "i < length (filter (\<lambda>item. FNSKU_REGEX_test (trim (str item))) items)"
    and "anchor = transformItem pageHeight
                    (filter (\<lambda>item. FNSKU_REGEX_test (trim (str item))) items ! i)"
    and "L = findLabelsByFnsku items pageHeight ! i"
  shows
    "(t \<in> set (label_items L)
        \<longleftrightarrow> t \<in> set (map (transformItem pageHeight) items)
            \<and> jlt (jsub (rect_x (box anchor)) (Fin 120)) (rect_x (box t))
            \<and> jlt (rect_x (box t)) (jadd (rect_x (box anchor)) (Fin 120))
            \<and> jlt (jsub (rect_y (box anchor)) (Fin 60))
                    (jadd (rect_y (box t)) (jdiv2 (rect_height (box t))))
            \<and> jlt (jadd (rect_y (box t)) (jdiv2 (rect_height (box t))))
                    (jadd (rect_y (box anchor)) (Fin 60)))
     \<and> (t \<in> set (label_items L)
          \<longrightarrow> (\<exists>ax ay tx ty th.
                 rect_x (box anchor) = Fin ax \<and> rect_y (box anchor) = Fin ay
                 \<and> rect_x (box t) = Fin tx \<and> rect_y (box t) = Fin ty
                 \<and> rect_height (box t) = Fin th
                 \<and> (is_double (Fin tx) \<and> is_double (Fin th)
                      \<and> (th = 0 \<or> 2 powi (- 1021) \<le> \<bar>th\<bar>)
                     \<longrightarrow> ax - 120 < tx \<and> tx < ax + 120
                         \<and> ay - 60 < ty + th / 2 \<and> ty + th / 2 < ay + 60)))
     \<and> (\<forall>ax ay tx ty th.
           t \<in> set (map (transformItem pageHeight) items)
           \<and> rect_x (box anchor) = Fin ax \<and> rect_y (box anchor) = Fin ay
           \<and> rect_x (box t) = Fin tx \<and> rect_y (box t) = Fin ty \<and> rect_height (box t) = Fin th
           \<and> \<bar>ax\<bar> < 2 ^ 40 \<and> \<bar>ay\<bar> < 2 ^ 40 \<and> \<bar>ty\<bar> < 2 ^ 40 \<and> \<bar>th\<bar> < 2 ^ 40
           \<and> ax - 120 + 1 / 2 ^ 11 \<le> tx \<and> tx \<le> ax + 120 - 1 / 2 ^ 11
           \<and> ay - 60 + 1 / 2 ^ 11 \<le> ty + th / 2 \<and> ty + th / 2 \<le> ay + 60 - 1 / 2 ^ 11
           \<longrightarrow> t \<in> set (label_items L))
     \<and> transformItem pageHeight r
         = \<lparr>str = str r,
            box = \<lparr>rect_x = rect_x (box r),
                   rect_y = jsub (jsub pageHeight (rect_y (box r))) (rect_height (box r)),
                   rect_width = rect_width (box r), rect_height = rect_height (box r)\<rparr>\<rparr>"
proof -
  have a: "(\<lambda>item. FNSKU_REGEX_test (trim (str item))) = isAnchor"
    by (simp add: isAnchor_def fun_eq_iff)
  from assms(1) have "L = labelOfAnchor (map (transformItem pageHeight) items) pageHeight anchor"
    unfolding assms(2,3) a by (simp add: findLabelsByFnsku_map)
  then have m: "t \<in> set (label_items L)
      \<longleftrightarrow> t \<in> set (map (transformItem pageHeight) items) \<and> in_window anchor t"
    by (simp only: label_items_in_window set_filter mem_Collect_eq)
  have 1: "t \<in> set (label_items L)
        \<longleftrightarrow> t \<in> set (map (transformItem pageHeight) items)
            \<and> jlt (jsub (rect_x (box anchor)) (Fin 120)) (rect_x (box t))
            \<and> jlt (rect_x (box t)) (jadd (rect_x (box anchor)) (Fin 120))
            \<and> jlt (jsub (rect_y (box anchor)) (Fin 60))
                    (jadd (rect_y (box t)) (jdiv2 (rect_height (box t))))
            \<and> jlt (jadd (rect_y (box t)) (jdiv2 (rect_height (box t))))
                    (jadd (rect_y (box anchor)) (Fin 60))"
    unfolding m in_window_def ..
  have 2: "\<exists>ax ay tx ty th.
                 rect_x (box anchor) = Fin ax \<and> rect_y (box anchor) = Fin ay
                 \<and> rect_x (box t) = Fin tx \<and> rect_y (box t) = Fin ty
                 \<and> rect_height (box t) = Fin th
                 \<and> (is_double (Fin tx) \<and> is_double (Fin th)
                      \<and> (th = 0 \<or> 2 powi (- 1021) \<le> \<bar>th\<bar>)
                     \<longrightarrow> ax - 120 < tx \<and> tx < ax + 120
                         \<and> ay - 60 < ty + th / 2 \<and> ty + th / 2 < ay + 60)"
    if "t \<in> set (label_items L)"
  proof -
    from that m have w: "in_window anchor t" by simp
    from in_window_finite [OF w] obtain ax ay tx ty th where
      f: "rect_x (box anchor) = Fin ax" "rect_y (box anchor) = Fin ay"
         "rect_x (box t) = Fin tx" "rect_y (box t) = Fin ty" "rect_height (box t) = Fin th"
      unfolding finite_num_Fin by blast
    from in_window_exact [OF w f] f show ?thesis by simp
  qed
  have 3: "t \<in> set (label_items L)"
    if "t \<in> set (map (transformItem pageHeight) items)
           \<and> rect_x (box anchor) = Fin ax \<and> rect_y (box anchor) = Fin ay
           \<and> rect_x (box t) = Fin tx \<and> rect_y (box t) = Fin ty \<and> rect_height (box t) = Fin th
           \<and> \<bar>ax\<bar> < 2 ^ 40 \<and> \<bar>ay\<bar> < 2 ^ 40 \<and> \<bar>ty\<bar> < 2 ^ 40 \<and> \<bar>th\<bar> < 2 ^ 40
           \<and> ax - 120 + 1 / 2 ^ 11 \<le> tx \<and> tx \<le> ax + 120 - 1 / 2 ^ 11
           \<and> ay - 60 + 1 / 2 ^ 11 \<le> ty + th / 2 \<and> ty + th / 2 \<le> ay + 60 - 1 / 2 ^ 11"
    for ax ay tx ty th
  proof -
    from that have "in_window anchor t" by (intro in_window_margin [of anchor ax ay t tx ty th]) simp_all
    with that m show ?thesis by simp
  qed
  have 4: "transformItem pageHeight r
         = \<lparr>str = str r,
            box = \<lparr>rect_x = rect_x (box r),
                   rect_y = jsub (jsub pageHeight (rect_y (box r))) (rect_height (box r)),
                   rect_width = rect_width (box r), rect_height = rect_height (box r)\<rparr>\<rparr>"
    by (cases r, cases "box r") (simp add: transformItem_def)
  from 1 2 3 4 show ?thesis by blast
qed


lemma tightItems_transformed:
  "map (transformItem tightPageHeight) tightItems =
     [\<lparr>str = ''B0ABCDEFGH'',
       box = \<lparr>rect_x = Fin 100, rect_y = literal 522.4599999999999,
              rect_width = literal 52.800000000000004, rect_height = literal 9.6\<rparr>\<rparr>,
      \<lparr>str = ''Near'',
       box = \<lparr>rect_x = Fin 100, rect_y = literal 457.65999999999997,
              rect_width = literal 21.12, rect_height = literal 9.6\<rparr>\<rparr>]"
  by (simp add: tightItems_def tightBlocks_def tightPageHeight_def textItemOf_def transformItem_def
      jgt_def jsub_def dbl_eval)

lemma edgeItems_transformed:
  "map (transformItem (Fin 800)) edgeItems =
     [\<lparr>str = ''B0ABCDEFGH'',
       box = \<lparr>rect_x = Fin (3602879701896397 / 36028797018963968), rect_y = Fin 90,
              rect_width = literal 55.00000000000001, rect_height = Fin 10\<rparr>\<rparr>,
      \<lparr>str = ''Edge'',
       box = \<lparr>rect_x = Fin (4225643087868723 / 35184372088832), rect_y = Fin 90,
              rect_width = Fin 22, rect_height = Fin 10\<rparr>\<rparr>]"
  by (simp add: edgeItems_def edgeBlocks_def textItemOf_def transformItem_def jgt_def jsub_def
      dbl_eval)


lemma str_textItemOf: "str (textItemOf m text) = text"
  by (cases m) (simp add: textItemOf_def Let_def)

lemma example_anchors:
  "filter (\<lambda>item. FNSKU_REGEX_test (trim (str item))) tightItems = [tightItems ! 0]"
  "filter (\<lambda>item. FNSKU_REGEX_test (trim (str item))) edgeItems = [edgeItems ! 0]"
  "length tightItems = 2" "length edgeItems = 2" "length farItems = 5"
  "filter (\<lambda>item. FNSKU_REGEX_test (trim (str item))) farItems ! 0 = farItems ! 0"
  "0 < length (filter (\<lambda>item. FNSKU_REGEX_test (trim (str item))) farItems)"
  "filter isAnchor edgeItems = [edgeItems ! 0]"
  by (simp_all add: tightItems_def tightBlocks_def edgeItems_def edgeBlocks_def farItems_def
      farBlocks_def scenarioBlocks_def str_textItemOf anchor_eval)

theorem label_membership_window_witness:
  "map (transformItem tightPageHeight) tightItems ! 1
      \<in> set (label_items (findLabelsByFnsku tightItems tightPageHeight ! 0))
   \<and> (\<exists>ay ty th.
         rect_y (box (map (transformItem tightPageHeight) tightItems ! 0)) = Fin ay
         \<and> rect_y (box (map (transformItem tightPageHeight) tightItems ! 1)) = Fin ty
         \<and> rect_height (box (map (transformItem tightPageHeight) tightItems ! 1)) = Fin th
         \<and> ay - 60 < ty + th / 2 \<and> ty + th / 2 < ay + 60)
   \<and> map (transformItem (Fin 800)) farItems ! 1
      \<in> set (label_items (findLabelsByFnsku farItems (Fin 800) ! 0))
   \<and> map (transformItem (Fin 800)) farItems ! 3
      \<notin> set (label_items (findLabelsByFnsku farItems (Fin 800) ! 0))"
proof -
  let ?H = "tightPageHeight"
  let ?T = "map (transformItem ?H) tightItems"
  let ?F = "map (transformItem (Fin 800)) farItems"
  have a: "transformItem ?H (filter (\<lambda>item. FNSKU_REGEX_test (trim (str item))) tightItems ! 0)
      = ?T ! 0"
    by (simp add: example_anchors)
  have b: "transformItem (Fin 800) (filter (\<lambda>item. FNSKU_REGEX_test (trim (str item))) farItems ! 0)
      = ?F ! 0"
    by (simp add: example_anchors)
  note T = label_membership_window [where i = 0 and items = tightItems and pageHeight = ?H
      and t = "?T ! 1", OF _ refl refl, unfolded a]
  note F = label_membership_window [where i = 0 and items = farItems and pageHeight = "Fin 800",
      OF _ refl refl, unfolded b]
  have i: "0 < length (filter (\<lambda>item. FNSKU_REGEX_test (trim (str item))) tightItems)"
    "0 < length (filter (\<lambda>item. FNSKU_REGEX_test (trim (str item))) farItems)"
    by (simp add: example_anchors(1)) (rule example_anchors(7))
  have m: "?T ! 1 \<in> set ?T" "?F ! 1 \<in> set ?F"
    by (rule nth_mem, simp add: example_anchors)+
  have 1: "?T ! 1 \<in> set (label_items (findLabelsByFnsku tightItems ?H ! 0))"
    unfolding T [OF i(1), THEN conjunct1]
    using m(1) by (simp add: tightItems_transformed jsub_def dbl_eval del: set_map)
  have 2: "\<exists>ay ty th.
         rect_y (box (?T ! 0)) = Fin ay \<and> rect_y (box (?T ! 1)) = Fin ty
         \<and> rect_height (box (?T ! 1)) = Fin th
         \<and> ay - 60 < ty + th / 2 \<and> ty + th / 2 < ay + 60"
  proof -
    from T [OF i(1), THEN conjunct2, THEN conjunct1] 1 obtain ax ay tx ty th where
      f: "rect_x (box (?T ! 0)) = Fin ax" "rect_y (box (?T ! 0)) = Fin ay"
         "rect_x (box (?T ! 1)) = Fin tx" "rect_y (box (?T ! 1)) = Fin ty"
         "rect_height (box (?T ! 1)) = Fin th"
      and imp: "is_double (Fin tx) \<and> is_double (Fin th)
                      \<and> (th = 0 \<or> 2 powi (- 1021) \<le> \<bar>th\<bar>)
                     \<longrightarrow> ax - 120 < tx \<and> tx < ax + 120
                         \<and> ay - 60 < ty + th / 2 \<and> ty + th / 2 < ay + 60"
      by blast
    from f(3,5) have v: "tx = 100" "th = 5404319552844595 / 562949953421312"
      by (simp_all add: tightItems_transformed dbl_eval)
    have "is_double (Fin tx)" "is_double (Fin th)" unfolding v by (simp_all add: dbl_eval)
    moreover have "2 powi (- 1021) \<le> \<bar>th\<bar>" unfolding v by simp
    ultimately have "ay - 60 < ty + th / 2 \<and> ty + th / 2 < ay + 60" using imp by blast
    with f show ?thesis by blast
  qed
  have 3: "?F ! 1 \<in> set (label_items (findLabelsByFnsku farItems (Fin 800) ! 0))"
    using F [where t = "?F ! 1", OF i(2), THEN conjunct2, THEN conjunct2, THEN conjunct1,
        rule_format, of 100 90 90 100 10] m(2)
    by (simp add: farItems_eq transformItem_def jsub_def dbl_eval del: set_map)
  have 4: "?F ! 3 \<notin> set (label_items (findLabelsByFnsku farItems (Fin 800) ! 0))"
    unfolding F [where t = "?F ! 3", OF i(2), THEN conjunct1]
    by (simp add: farItems_eq transformItem_def jsub_def dbl_eval)
  from 1 2 3 4 show ?thesis by blast
qed

text \<open>
  The claim as first stated decides membership by the strict inequalities themselves. On
  \<open>edgeItems\<close> the token satisfies all four over the reals, its x being below the
  anchor's x + 120, but the sum rounds to the token's x, the comparison of the code fails,
  and the label holds the anchor alone.
\<close>

theorem window_rounding_counterexample:
  "label_items (findLabelsByFnsku edgeItems (Fin 800) ! 0)
     = [map (transformItem (Fin 800)) edgeItems ! 0]
   \<and> map (transformItem (Fin 800)) edgeItems
     = [\<lparr>str = ''B0ABCDEFGH'',
         box = \<lparr>rect_x = Fin (3602879701896397 / 36028797018963968), rect_y = Fin 90,
                rect_width = literal 55.00000000000001, rect_height = Fin 10\<rparr>\<rparr>,
        \<lparr>str = ''Edge'',
         box = \<lparr>rect_x = Fin (4225643087868723 / 35184372088832), rect_y = Fin 90,
                rect_width = Fin 22, rect_height = Fin 10\<rparr>\<rparr>]
   \<and> literal 0.1 = Fin (3602879701896397 / 36028797018963968)
   \<and> literal 120.1 = Fin (4225643087868723 / 35184372088832)
   \<and> (3602879701896397 / 36028797018963968 - 120 :: real) < 4225643087868723 / 35184372088832
   \<and> (4225643087868723 / 35184372088832 :: real) < 3602879701896397 / 36028797018963968 + 120
   \<and> (90 - 60 :: real) < 90 + 10 / 2 \<and> (90 + 10 / 2 :: real) < 90 + 60"
proof -
  have "findLabelsByFnsku edgeItems (Fin 800) ! 0
      = labelOfAnchor (map (transformItem (Fin 800)) edgeItems) (Fin 800)
          (map (transformItem (Fin 800)) edgeItems ! 0)"
    unfolding findLabelsByFnsku_map
    by (simp add: example_anchors isAnchor_def)
  then have "label_items (findLabelsByFnsku edgeItems (Fin 800) ! 0)
     = [map (transformItem (Fin 800)) edgeItems ! 0]"
    unfolding edgeItems_transformed
    by (simp add: label_items_in_window in_window_def jsub_def dbl_eval)
  moreover have "literal 0.1 = Fin (3602879701896397 / 36028797018963968)"
    "literal 120.1 = Fin (4225643087868723 / 35184372088832)"
    by (simp_all add: dbl_eval)
  ultimately show ?thesis by (simp add: edgeItems_transformed)
qed


section \<open>The extractor\<close>

lemma getTextItemsWithCoords_append:
  "getTextItemsWithCoords (bs1 @ bs2) = getTextItemsWithCoords bs1 @ getTextItemsWithCoords bs2"
  by (induction bs1 rule: getTextItemsWithCoords.induct) simp_all

lemma literal_055:
  "literal 0.55 = Fin (2476979795053773 / 4503599627370496)"
  by (simp add: dbl_eval)

lemma product_err:
  fixes v p c k :: real
  assumes "\<bar>v - p\<bar> \<le> e1" "\<bar>c - k\<bar> \<le> e2" "0 \<le> c" "c \<le> 1" "\<bar>p\<bar> \<le> m"
  shows "\<bar>v * c - p * k\<bar> \<le> e1 + m * e2"
proof -
  have "v * c - p * k = (v - p) * c + p * (c - k)" by (simp add: algebra_simps)
  then have "\<bar>v * c - p * k\<bar> \<le> \<bar>(v - p) * c\<bar> + \<bar>p * (c - k)\<bar>"
    by (simp only: abs_triangle_ineq)
  moreover have "\<bar>(v - p) * c\<bar> \<le> e1 * 1"
    unfolding abs_mult using assms(1,3,4) by (intro mult_mono) simp_all
  moreover have "\<bar>p * (c - k)\<bar> \<le> m * e2"
    unfolding abs_mult using assms(2,5) by (intro mult_mono) (simp_all add: order_trans [OF abs_ge_zero])
  ultimately show ?thesis by simp
qed

lemma err_chain:
  fixes w a b :: real
  assumes "\<bar>w - a\<bar> \<le> e1" "\<bar>a - b\<bar> \<le> e2" "e1 + e2 \<le> e"
  shows "\<bar>w - b\<bar> \<le> e"
  using assms by linarith

lemma width_near:
  assumes "\<bar>n * s\<bar> < 2 ^ 40"
  shows "\<exists>w. jmul (jmul (Fin n) (Fin s)) (literal 0.55) = Fin w \<and> \<bar>w - n * s * 0.55\<bar> \<le> 1 / 2 ^ 11"
proof -
  define c :: real where "c = 2476979795053773 / 4503599627370496"
  have c: "0 \<le> c" "c \<le> 1" "\<bar>c - 0.55\<bar> \<le> 1 / 2 ^ 54" by (simp_all add: c_def)
  have l: "literal 0.55 = Fin c" unfolding c_def by (rule literal_055)
  from assms have "\<bar>n * s\<bar> < 2 ^ 41" by simp
  from round_double_near [OF this] obtain v where
    v: "round_double (n * s) = Fin v" "\<bar>v - n * s\<bar> \<le> 1 / 2 ^ 13" by blast
  from v(2) assms(1) have vb: "\<bar>v\<bar> < 2 ^ 40 + 1" by (simp add: abs_if split: if_splits)
  have "\<bar>v * c\<bar> = \<bar>v\<bar> * c" using c(1) by (simp add: abs_mult)
  also have "\<dots> \<le> \<bar>v\<bar> * 1" using c(2) by (intro mult_left_mono) simp_all
  finally have "\<bar>v * c\<bar> < 2 ^ 41" using vb by simp
  from round_double_near [OF this] obtain w where
    w: "round_double (v * c) = Fin w" "\<bar>w - v * c\<bar> \<le> 1 / 2 ^ 13" by blast
  from assms have "\<bar>n * s\<bar> \<le> 2 ^ 40" by simp
  from product_err [OF v(2) c(3) c(1) c(2) this]
  have "\<bar>v * c - n * s * 0.55\<bar> \<le> 1 / 2 ^ 13 + 2 ^ 40 * (1 / 2 ^ 54)" by simp
  moreover have "1 / 2 ^ 13 + (1 / 2 ^ 13 + 2 ^ 40 * (1 / 2 ^ 54)) \<le> (1 / 2 ^ 11 :: real)" by simp
  ultimately have "\<bar>w - n * s * 0.55\<bar> \<le> 1 / 2 ^ 11" by (rule err_chain [OF w(2)])
  moreover have "jmul (jmul (Fin n) (Fin s)) (literal 0.55) = Fin w"
    unfolding l using v(1) w(1) by simp
  ultimately show ?thesis by blast
qed

text \<open>
  C7, as amended. A block with both matches yields one token, in the order of the blocks;
  a block lacking either yields none. The token's text is the matched text and its
  position the translation (e, f) of the matrix. The font size is a when a > 0 and d
  otherwise, so also when a is negative or not a number, and the height is the font size.
  The width is \<^verbatim>\<open>text.length * fontSize * 0.55\<close> as JavaScript computes it: the
  product of the length and the size rounded to a double, times the double nearest to
  0.55, rounded again. It need not be the real product, but for a finite size with
  \<open>length * size\<close> below \<open>2^40\<close> in magnitude it is finite and within \<open>2^-11\<close> of it.
\<close>

theorem extractor_fields:
  "\<exists>item.
     getTextItemsWithCoords (bs1 @ (Some (a, b, c, d, e, f), Some text) # bs2)
       = getTextItemsWithCoords bs1 @ item # getTextItemsWithCoords bs2
     \<and> str item = text \<and> rect_x (box item) = e \<and> rect_y (box item) = f
     \<and> rect_height (box item) = (if jgt a (Fin 0) then a else d)
     \<and> rect_width (box item)
         = jmul (jmul (Fin (real (length text))) (rect_height (box item))) (literal 0.55)
     \<and> (\<forall>s. rect_height (box item) = Fin s \<and> \<bar>real (length text) * s\<bar> < 2 ^ 40
           \<longrightarrow> (\<exists>w. rect_width (box item) = Fin w
                  \<and> \<bar>w - real (length text) * s * 0.55\<bar> \<le> 1 / 2 ^ 11))"
proof -
  let ?item = "textItemOf (a, b, c, d, e, f) text"
  have w: "rect_width (box ?item)
      = jmul (jmul (Fin (real (length text))) (rect_height (box ?item))) (literal 0.55)"
    by (simp add: textItemOf_def Let_def)
  have "getTextItemsWithCoords (bs1 @ (Some (a, b, c, d, e, f), Some text) # bs2)
       = getTextItemsWithCoords bs1 @ ?item # getTextItemsWithCoords bs2"
    by (simp add: getTextItemsWithCoords_append)
  moreover have "str ?item = text \<and> rect_x (box ?item) = e \<and> rect_y (box ?item) = f
     \<and> rect_height (box ?item) = (if jgt a (Fin 0) then a else d)"
    by (simp add: textItemOf_def Let_def)
  moreover have "\<forall>s. rect_height (box ?item) = Fin s \<and> \<bar>real (length text) * s\<bar> < 2 ^ 40
           \<longrightarrow> (\<exists>w. rect_width (box ?item) = Fin w
                  \<and> \<bar>w - real (length text) * s * 0.55\<bar> \<le> 1 / 2 ^ 11)"
    unfolding w using width_near by simp
  ultimately show ?thesis using w by blast
qed


theorem extractor_fields_witness:
  "getTextItemsWithCoords
     [(None, Some ''x''),
      (Some (Fin 0, Fin 0, Fin 0, Fin 12, Fin 10, Fin 20), Some ''AB''),
      (Some (Fin 10, Fin 0, Fin 0, Fin 10, Fin 0, Fin 0), None)]
     = [\<lparr>str = ''AB'',
         box = \<lparr>rect_x = Fin 10, rect_y = Fin 20, rect_width = literal 13.200000000000001,
                rect_height = Fin 12\<rparr>\<rparr>]
   \<and> (\<exists>w. literal 13.200000000000001 = Fin w \<and> \<bar>w - 2 * 12 * 0.55\<bar> \<le> 1 / 2 ^ 11)"
proof -
  from extractor_fields [of "[(None, Some ''x'')]" "Fin 0" "Fin 0" "Fin 0" "Fin 12" "Fin 10"
      "Fin 20" "''AB''" "[(Some (Fin 10, Fin 0, Fin 0, Fin 10, Fin 0, Fin 0), None)]"]
  obtain item where *: "getTextItemsWithCoords
     [(None, Some ''x''),
      (Some (Fin 0, Fin 0, Fin 0, Fin 12, Fin 10, Fin 20), Some ''AB''),
      (Some (Fin 10, Fin 0, Fin 0, Fin 10, Fin 0, Fin 0), None)] = [item]"
    "str item = ''AB''" "rect_x (box item) = Fin 10" "rect_y (box item) = Fin 20"
    "rect_height (box item) = (if jgt (Fin 0) (Fin 0) then Fin 0 else Fin 12)"
    "rect_width (box item)
       = jmul (jmul (Fin (real (length ''AB''))) (rect_height (box item))) (literal 0.55)"
    "\<forall>s. rect_height (box item) = Fin s \<and> \<bar>real (length ''AB'') * s\<bar> < 2 ^ 40
           \<longrightarrow> (\<exists>w. rect_width (box item) = Fin w
                  \<and> \<bar>w - real (length ''AB'') * s * 0.55\<bar> \<le> 1 / 2 ^ 11)"
    by auto
  from *(5) have h: "rect_height (box item) = Fin 12" by (simp add: jgt_def)
  have w: "rect_width (box item) = literal 13.200000000000001"
    unfolding *(6) h by (simp add: dbl_eval)
  have "item = \<lparr>str = ''AB'',
        box = \<lparr>rect_x = Fin 10, rect_y = Fin 20, rect_width = literal 13.200000000000001,
               rect_height = Fin 12\<rparr>\<rparr>"
    using *(2,3,4) h w by (cases item, cases "box item") simp
  moreover from *(7) h have "\<exists>w. rect_width (box item) = Fin w \<and> \<bar>w - 2 * 12 * 0.55\<bar> \<le> 1 / 2 ^ 11"
    by simp
  ultimately show ?thesis using *(1) w by simp
qed

text \<open>
  The claim as first stated takes the font size from a whenever a is not zero, and the
  width to be the product exactly. With a = -1 and d = 12 the code takes 12; and the width
  it gives the two characters at size 12 is the double 13.200000000000001, which is neither
  the product 13.2 nor the double nearest to it.
\<close>

theorem font_size_counterexample:
  "rect_height (box (hd (getTextItemsWithCoords
      [(Some (Fin (- 1), Fin 0, Fin 0, Fin 12, Fin 10, Fin 20), Some ''AB'')]))) = Fin 12
   \<and> Fin (- 1) \<noteq> Fin 0
   \<and> rect_height (box (hd (getTextItemsWithCoords
      [(Some (Fin (- 1), Fin 0, Fin 0, Fin 12, Fin 10, Fin 20), Some ''AB'')]))) \<noteq> Fin (- 1)
   \<and> rect_width (box (hd (getTextItemsWithCoords
      [(Some (Fin (- 1), Fin 0, Fin 0, Fin 12, Fin 10, Fin 20), Some ''AB'')])))
       = literal 13.200000000000001
   \<and> literal 13.200000000000001 \<noteq> Fin (2 * 12 * 0.55)
   \<and> literal 13.200000000000001 \<noteq> literal 13.2"
  by (simp add: textItemOf_def jgt_def dbl_eval)


section \<open>Insertion placement\<close>

lemma round_double_pos_fix:
  assumes "round_double r = Fin r" "0 < r"
  shows "round_mag r = r"
  using assms by (simp add: round_double_def overflow_check_def split: if_splits)

lemma p2_tiny_le_1: "(2::real) powi (- 1021) \<le> 2 powi 0" by (rule p2_mono) simp

lemma near_200_bounds: "\<bar>200 - r\<bar> < 2 powi (- 1021) \<Longrightarrow> 199 < r \<and> r < (201::real)"
  using p2_tiny_le_1 by (simp only: power_int_0_right) linarith

lemma ilog2_near_200: "199 < r \<Longrightarrow> r < 201 \<Longrightarrow> ilog2 r = 7"
  by (rule ilog2_unique) simp_all


lemma p2_m45: "(2::real) powi (- 45) = 1 / 2 ^ 45"
  using powi_neg_nat [of 45] by simp

lemma double_near_200:
  assumes "round_double r = Fin r" "r \<noteq> 200"
  shows "2 powi (- 1021) \<le> \<bar>200 - r\<bar>"
proof (rule ccontr)
  assume "\<not> 2 powi (- 1021) \<le> \<bar>200 - r\<bar>"
  then have lt: "\<bar>200 - r\<bar> < 2 powi (- 1021)" by simp
  from near_200_bounds [OF lt] have r: "199 < r" "r < 201" by simp_all
  from ilog2_near_200 [OF r] have e: "double_exp r = - 45" by (simp add: double_exp_def)
  define n where "n = round_half_even (r / 2 powi (- 45))"
  from round_double_pos_fix [OF assms(1)] r have "round_mag r = r" by simp
  then have rn: "r = of_int n * 2 powi (- 45)"
    by (simp only: round_mag_def e round_at_def n_def)
  define k where "k = 200 * 2 ^ 45 - n"
  have "of_int k * (2::real) powi (- 45) = 200 - of_int n * 2 powi (- 45)"
    unfolding k_def p2_m45 by (simp add: field_simps)
  with rn have d: "200 - r = of_int k * 2 powi (- 45)" by simp
  with assms(2) have "k \<noteq> 0" by auto
  then have "1 \<le> \<bar>k\<bar>" by simp
  then have "(1::real) \<le> of_int \<bar>k\<bar>" by (simp only: of_int_1_le_iff)
  then have "1 * (2::real) powi (- 45) \<le> of_int \<bar>k\<bar> * 2 powi (- 45)"
    by (rule mult_right_mono) simp
  also have "\<dots> = \<bar>200 - r\<bar>" unfolding d by (simp add: abs_mult)
  finally have "(2::real) powi (- 45) \<le> \<bar>200 - r\<bar>" by simp
  moreover have "(2::real) powi (- 1021) \<le> 2 powi (- 45)" by (rule p2_mono) simp
  ultimately show False using lt by linarith
qed

lemma round_double_half_diff:
  assumes "round_double r = Fin r" "\<bar>r\<bar> < 2 ^ 1000"
  shows "\<exists>v. round_double (200 - r) = Fin v \<and> round_double ((200 - r) / 2) = Fin (v / 2)"
proof -
  have "(200::real) \<le> 2 ^ 1000" by simp
  with assms(2) have "\<bar>200 - r\<bar> < 2 ^ 1000 + 2 ^ 1000" by linarith
  then have "\<bar>200 - r\<bar> < 2 powi 1001" by simp
  from round_double_error [OF this] obtain v where v: "round_double (200 - r) = Fin v"
    by auto
  show ?thesis
  proof (cases "r = 200")
    case True
    then show ?thesis by (simp add: round_double_def)
  next
    case False
    from round_double_half [OF v double_near_200 [OF assms(1) False]] v show ?thesis by simp
  qed
qed

lemma centre_200:
  assumes "round_double tw = Fin tw" "tw = 0 \<or> 2 powi (- 1021) \<le> \<bar>tw\<bar>" "\<bar>tw\<bar> < 2 ^ 1000"
  shows "jadd (Fin 0) (jdiv2 (jsub (Fin 200) (Fin tw))) = jsub (Fin 100) (jdiv2 (Fin tw))"
proof -
  from round_double_half_diff [OF assms(1,3)] obtain v where
    v: "round_double (200 - tw) = Fin v" "round_double ((200 - tw) / 2) = Fin (v / 2)" by blast
  from round_double_idem [OF v(2)] have "round_double (v / 2) = Fin (v / 2)" .
  then have l: "jadd (Fin 0) (jdiv2 (jsub (Fin 200) (Fin tw))) = Fin (v / 2)"
    using v(1) by (simp add: jsub_def)
  have "(200 - tw) / 2 = 100 - tw / 2" by simp
  with v(2) have "round_double (100 - tw / 2) = Fin (v / 2)" by simp
  then have "jsub (Fin 100) (jdiv2 (Fin tw)) = Fin (v / 2)"
    unfolding jdiv2_exact [OF assms(1,2)] by (simp add: jsub_def)
  with l show ?thesis by simp
qed


lemma placement_near:
  assumes "\<bar>bx\<bar> < 2 ^ 38" "\<bar>bw\<bar> < 2 ^ 38" "\<bar>tw\<bar> < 2 ^ 38"
  shows "\<exists>x. jadd (Fin bx) (jdiv2 (jsub (Fin bw) (Fin tw))) = Fin x
             \<and> \<bar>x - ((bx + bw / 2) - tw / 2)\<bar> \<le> 1 / 2 ^ 11"
proof -
  from assms(2,3) have "\<bar>bw - tw\<bar> < 2 ^ 41" by (simp add: abs_if split: if_splits)
  from jsub_near [OF this] obtain d where
    d: "jsub (Fin bw) (Fin tw) = Fin d" "\<bar>d - (bw - tw)\<bar> \<le> 1 / 2 ^ 13" by blast
  from d(2) assms(2,3) have "\<bar>d\<bar> < 2 ^ 41" by (simp add: abs_if split: if_splits)
  from jdiv2_near [OF this] obtain h where
    h: "jdiv2 (Fin d) = Fin h" "\<bar>h - d / 2\<bar> \<le> 1 / 2 ^ 13" by blast
  from h(2) d(2) assms have "\<bar>bx + h\<bar> < 2 ^ 41" by (simp add: abs_if split: if_splits)
  from jadd_near [OF this] obtain x where
    x: "jadd (Fin bx) (Fin h) = Fin x" "\<bar>x - (bx + h)\<bar> \<le> 1 / 2 ^ 13" by blast
  from x(2) h(2) d(2) have "\<bar>x - ((bx + bw / 2) - tw / 2)\<bar> \<le> 1 / 2 ^ 11" by (simp add: abs_if split: if_splits)
  with d(1) h(1) x(1) show ?thesis by simp
qed


text \<open>
  C6, as amended. When text is added to a label it is drawn after the label's rectangles,
  at x = box.x + (box.width - textWidth) / 2 and y = box.y + 2 as the code evaluates them
  on doubles, where textWidth is what the font reports for the text at the font size. For
  a box and a text width below \<open>2^38\<close> in magnitude, x is within \<open>2^-11\<close> of (the
  horizontal centre of the box) - textWidth / 2 and y within \<open>2^-11\<close> of the y of the
  box plus 2; x need not be the double that evaluating centre - textWidth / 2 gives. For
  the box \<^verbatim>\<open>{x:0, y:0, width:200, height:50}\<close> it is that double: x is
  100 - textWidth / 2 as evaluated on doubles and y is 2, for every font size and every
  text whose width is a double that is zero or at least \<open>2^-1021\<close>, and below
  \<open>2^1000\<close>, in magnitude. The second variant of the handler subtracts textWidth / 2
  from the x it is given and keeps the y, for any text.
\<close>

theorem insertion_placement:
  "drawLabel widthOf textToRemove True fontSize label
     = drawLabel widthOf textToRemove False fontSize label
       @ [DrawText ''Made in China''
            (jadd (rect_x (label_box label))
                  (jdiv2 (jsub (rect_width (label_box label)) (widthOf ''Made in China'' fontSize))))
            (jadd (rect_y (label_box label)) (Fin 2))
            fontSize]
   \<and> (\<forall>bx by bw tw.
         rect_x (label_box label) = Fin bx \<and> rect_y (label_box label) = Fin by
         \<and> rect_width (label_box label) = Fin bw \<and> widthOf ''Made in China'' fontSize = Fin tw
         \<and> \<bar>bx\<bar> < 2 ^ 38 \<and> \<bar>by\<bar> < 2 ^ 38 \<and> \<bar>bw\<bar> < 2 ^ 38 \<and> \<bar>tw\<bar> < 2 ^ 38
         \<longrightarrow> (\<exists>x y.
                jadd (rect_x (label_box label))
                     (jdiv2 (jsub (rect_width (label_box label))
                                  (widthOf ''Made in China'' fontSize))) = Fin x
                \<and> jadd (rect_y (label_box label)) (Fin 2) = Fin y
                \<and> \<bar>x - ((bx + bw / 2) - tw / 2)\<bar> \<le> 1 / 2 ^ 11
                \<and> \<bar>y - (by + 2)\<bar> \<le> 1 / 2 ^ 11))
   \<and> (\<forall>tw.
         label_box label
           = \<lparr>rect_x = Fin 0, rect_y = Fin 0, rect_width = Fin 200, rect_height = Fin 50\<rparr>
         \<and> widthOf ''Made in China'' fontSize = Fin tw \<and> is_double (Fin tw)
         \<and> (tw = 0 \<or> 2 powi (- 1021) \<le> \<bar>tw\<bar>) \<and> \<bar>tw\<bar> < 2 ^ 1000
         \<longrightarrow> drawLabel widthOf [] True fontSize label
               = [DrawText ''Made in China''
                    (jsub (Fin 100) (jdiv2 (widthOf ''Made in China'' fontSize))) (Fin 2) fontSize])
   \<and> applyPageMod widthOf
        \<lparr>removeAreas = [],
         addText = [\<lparr>ti_text = text, ti_x = centreX, ti_y = bottomY, ti_fontSize = fontSize\<rparr>]\<rparr>
       = [DrawText text (jsub centreX (jdiv2 (widthOf text fontSize))) bottomY fontSize]"
proof -
  have 1: "drawLabel widthOf textToRemove True fontSize label
     = drawLabel widthOf textToRemove False fontSize label
       @ [DrawText ''Made in China''
            (jadd (rect_x (label_box label))
                  (jdiv2 (jsub (rect_width (label_box label)) (widthOf ''Made in China'' fontSize))))
            (jadd (rect_y (label_box label)) (Fin 2))
            fontSize]"
    by (simp add: drawLabel_def Let_def)
  have 2: "\<exists>x y.
                jadd (rect_x (label_box label))
                     (jdiv2 (jsub (rect_width (label_box label))
                                  (widthOf ''Made in China'' fontSize))) = Fin x
                \<and> jadd (rect_y (label_box label)) (Fin 2) = Fin y
                \<and> \<bar>x - ((bx + bw / 2) - tw / 2)\<bar> \<le> 1 / 2 ^ 11
                \<and> \<bar>y - (by + 2)\<bar> \<le> 1 / 2 ^ 11"
    if h: "rect_x (label_box label) = Fin bx \<and> rect_y (label_box label) = Fin by
         \<and> rect_width (label_box label) = Fin bw \<and> widthOf ''Made in China'' fontSize = Fin tw
         \<and> \<bar>bx\<bar> < 2 ^ 38 \<and> \<bar>by\<bar> < 2 ^ 38 \<and> \<bar>bw\<bar> < 2 ^ 38 \<and> \<bar>tw\<bar> < 2 ^ 38"
    for bx "by" bw tw
  proof -
    from h have "\<bar>by + 2\<bar> < 2 ^ 41" by (simp add: abs_if split: if_splits)
    from jadd_near [OF this] obtain y where
      y: "jadd (Fin by) (Fin 2) = Fin y" "\<bar>y - (by + 2)\<bar> \<le> 1 / 2 ^ 13" by blast
    from y(2) have "\<bar>y - (by + 2)\<bar> \<le> 1 / 2 ^ 11" by simp
    moreover from h placement_near [of bx bw tw] obtain x where
      "jadd (Fin bx) (jdiv2 (jsub (Fin bw) (Fin tw))) = Fin x"
      "\<bar>x - ((bx + bw / 2) - tw / 2)\<bar> \<le> 1 / 2 ^ 11" by blast
    ultimately show ?thesis using h y(1) by simp
  qed
  have 3: "drawLabel widthOf [] True fontSize label
               = [DrawText ''Made in China''
                    (jsub (Fin 100) (jdiv2 (widthOf ''Made in China'' fontSize))) (Fin 2) fontSize]"
    if h: "label_box label
           = \<lparr>rect_x = Fin 0, rect_y = Fin 0, rect_width = Fin 200, rect_height = Fin 50\<rparr>
         \<and> widthOf ''Made in China'' fontSize = Fin tw \<and> is_double (Fin tw)
         \<and> (tw = 0 \<or> 2 powi (- 1021) \<le> \<bar>tw\<bar>) \<and> \<bar>tw\<bar> < 2 ^ 1000"
    for tw
  proof -
    from h have "jadd (Fin 0) (jdiv2 (jsub (Fin 200) (Fin tw))) = jsub (Fin 100) (jdiv2 (Fin tw))"
      by (intro centre_200) simp_all
    moreover have "jadd (Fin 0) (Fin 2) = Fin 2" by (simp add: round_double_of_int [of 2, simplified])
    ultimately show ?thesis using h by (simp add: drawLabel_def Let_def)
  qed
  have 4: "applyPageMod widthOf
        \<lparr>removeAreas = [],
         addText = [\<lparr>ti_text = text, ti_x = centreX, ti_y = bottomY, ti_fontSize = fontSize\<rparr>]\<rparr>
       = [DrawText text (jsub centreX (jdiv2 (widthOf text fontSize))) bottomY fontSize]"
    by (simp add: applyPageMod_def Let_def)
  from 1 2 3 4 show ?thesis by blast
qed


theorem insertion_placement_witness:
  "drawLabel (\<lambda>text size. literal 51.576) [] True (Fin 8)
     \<lparr>label_box = \<lparr>rect_x = Fin 0, rect_y = Fin 0, rect_width = Fin 200, rect_height = Fin 50\<rparr>,
      label_items = []\<rparr>
     = [DrawText ''Made in China'' (literal 74.212) (Fin 2) (Fin 8)]
   \<and> drawLabel (\<lambda>text size. literal 51.576) [] True (Fin 8)
     \<lparr>label_box = \<lparr>rect_x = Fin 90, rect_y = Fin 690, rect_width = Fin 65, rect_height = Fin 20\<rparr>,
      label_items = []\<rparr>
     = [DrawText ''Made in China'' (literal 96.712) (Fin 692) (Fin 8)]
   \<and> (\<exists>x tw. literal 96.712 = Fin x \<and> literal 51.576 = Fin tw
         \<and> \<bar>x - ((90 + 65 / 2) - tw / 2)\<bar> \<le> 1 / 2 ^ 11)
   \<and> applyPageMod (\<lambda>text size. literal 51.576)
        \<lparr>removeAreas = [],
         addText = [\<lparr>ti_text = ''Made in China'', ti_x = Fin 100, ti_y = Fin 2,
                     ti_fontSize = Fin 8\<rparr>]\<rparr>
       = [DrawText ''Made in China'' (literal 74.212) (Fin 2) (Fin 8)]"
proof -
  let ?w = "\<lambda>text size :: jsnum. literal 51.576"
  let ?a = "\<lparr>label_box = \<lparr>rect_x = Fin 0, rect_y = Fin 0, rect_width = Fin 200,
                            rect_height = Fin 50\<rparr>,
             label_items = []\<rparr>"
  let ?b = "\<lparr>label_box = \<lparr>rect_x = Fin 90, rect_y = Fin 690, rect_width = Fin 65,
                            rect_height = Fin 20\<rparr>,
             label_items = []\<rparr>"
  have tw: "literal 51.576 = Fin (7258676699414397 / 140737488355328)"
    by (simp add: dbl_eval)
  have v: "jsub (Fin 100) (jdiv2 (Fin (7258676699414397 / 140737488355328))) = literal 74.212"
    by (simp add: jsub_def dbl_eval)
  note A = insertion_placement [of ?w "[]" "Fin 8" ?a]
  note B = insertion_placement [of ?w "[]" "Fin 8" ?b]
  have "is_double (Fin (7258676699414397 / 140737488355328))"
    by (simp add: dbl_eval)
  moreover have "(2::real) powi (- 1021) \<le> \<bar>7258676699414397 / 140737488355328\<bar>"
    "\<bar>7258676699414397 / 140737488355328\<bar> < (2::real) ^ 1000" by simp_all
  ultimately have 1: "drawLabel ?w [] True (Fin 8) ?a
      = [DrawText ''Made in China'' (literal 74.212) (Fin 2) (Fin 8)]"
    using A [THEN conjunct2, THEN conjunct2, THEN conjunct1, rule_format,
        of "7258676699414397 / 140737488355328"]
    by (simp add: jsub_def dbl_eval)
  have 2: "drawLabel ?w [] True (Fin 8) ?b
      = [DrawText ''Made in China'' (literal 96.712) (Fin 692) (Fin 8)]"
    unfolding B [THEN conjunct1] by (simp add: drawLabel_def jsub_def dbl_eval)
  from B [THEN conjunct2, THEN conjunct1, rule_format,
      of 90 690 65 "7258676699414397 / 140737488355328"]
  obtain x y where
    x: "jadd (Fin 90) (jdiv2 (jsub (Fin 65) (literal 51.576))) = Fin x"
    "\<bar>x - ((90 + 65 / 2) - 7258676699414397 / 140737488355328 / 2)\<bar> \<le> 1 / 2 ^ 11"
    by (auto simp add: dbl_eval)
  have e: "jadd (Fin 90) (jdiv2 (jsub (Fin 65) (literal 51.576))) = literal 96.712"
    by (simp add: jsub_def dbl_eval)
  have 3: "\<exists>x tw. literal 96.712 = Fin x \<and> literal 51.576 = Fin tw
         \<and> \<bar>x - ((90 + 65 / 2) - tw / 2)\<bar> \<le> 1 / 2 ^ 11"
  proof (intro exI conjI)
    show "literal 96.712 = Fin x" by (rule e [symmetric, THEN trans, OF x(1)])
    show "literal 51.576 = Fin (7258676699414397 / 140737488355328)" by (simp add: dbl_eval)
    show "\<bar>x - ((90 + 65 / 2) - 7258676699414397 / 140737488355328 / 2)\<bar> \<le> 1 / 2 ^ 11"
      by (rule x(2))
  qed
  have 4: "applyPageMod ?w
        \<lparr>removeAreas = [],
         addText = [\<lparr>ti_text = ''Made in China'', ti_x = Fin 100, ti_y = Fin 2,
                     ti_fontSize = Fin 8\<rparr>]\<rparr>
       = [DrawText ''Made in China'' (literal 74.212) (Fin 2) (Fin 8)]"
    unfolding A [THEN conjunct2, THEN conjunct2, THEN conjunct2]
    by (simp add: jsub_def dbl_eval)
  from 1 2 3 4 show ?thesis by blast
qed

text \<open>
  The claim as first stated puts the text at (horizontal centre) - textWidth / 2. For a
  box at x = 90.3 of width 65.7 and a text width of 51.576 the code draws at the double
  97.362; the centre less half the text width is another number over the reals, and
  evaluated on doubles it is 97.36200000000001.
\<close>

theorem centre_rounding_counterexample:
  "drawLabel (\<lambda>text size. literal 51.576) [] True (Fin 8)
     \<lparr>label_box = \<lparr>rect_x = literal 90.3, rect_y = Fin 0, rect_width = literal 65.7,
                    rect_height = Fin 50\<rparr>,
      label_items = []\<rparr>
     = [DrawText ''Made in China'' (literal 97.362) (Fin 2) (Fin 8)]
   \<and> literal 90.3 = Fin (6354297599243059 / 70368744177664)
   \<and> literal 65.7 = Fin (4623226492472525 / 70368744177664)
   \<and> literal 51.576 = Fin (7258676699414397 / 140737488355328)
   \<and> literal 97.362 = Fin (3425620835312861 / 35184372088832)
   \<and> (3425620835312861 / 35184372088832 :: real)
       \<noteq> (6354297599243059 / 70368744177664 + 4623226492472525 / 70368744177664 / 2)
           - 7258676699414397 / 140737488355328 / 2
   \<and> jsub (jadd (literal 90.3) (jdiv2 (literal 65.7))) (jdiv2 (literal 51.576))
       = literal 97.36200000000001
   \<and> literal 97.362 \<noteq> literal 97.36200000000001"
  by (simp add: drawLabel_def jsub_def dbl_eval)

end
